theory Spec2Isabelle
  imports Complex_Main "HOL-Library.Char_ord" "HOL-Library.List_Lexorder" "HOL-Library.Multiset"
begin

section \<open>JavaScript strings\<close>

text \<open>
  A JavaScript string is modelled as the list of its code units, in the range below 256
  that \<^typ>\<open>char\<close> covers. \<open>s.trim()\<close> strips white space and line terminators from both
  ends; in that range these are the code units 9 to 13, 32 and 160. A string is truthy
  when it is not empty. \<open>xs.join(sep)\<close> concatenates with the separator between
  neighbours.
\<close>

definition isWhiteSpace :: "char \<Rightarrow> bool" where
  "isWhiteSpace c = (c \<in> set [CHR 0x09, CHR 0x0A, CHR 0x0B, CHR 0x0C, CHR 0x0D, CHR 0x20, CHR 0xA0])"

definition trimStart :: "string \<Rightarrow> string" where
  "trimStart s = dropWhile isWhiteSpace s"

definition trim :: "string \<Rightarrow> string" where
  "trim s = rev (dropWhile isWhiteSpace (rev (dropWhile isWhiteSpace s)))"

definition truthy :: "string \<Rightarrow> bool" where
  "truthy s = (s \<noteq> [])"

fun join :: "string \<Rightarrow> string list \<Rightarrow> string" where
  "join sep [] = []"
| "join sep [x] = x"
| "join sep (x # y # ys) = x @ sep @ join sep (y # ys)"

section \<open>Filter state\<close>

text \<open>
  \<open>FilterState\<close> (table.tsx, lines 211 to 219) is an object with one string per facet;
  the empty string is the unset facet (the initial state, and what the dropdown's
  \<open>All\<close> entry passes). The handlers address it by a computed key, so it is a total
  function from the six facet names to strings; every call site of
  \<open>handleFilterChange\<close> passes one of the six literal names.
\<close>

datatype facet =
    InfraYear_key
  | Region_key
  | Province_key
  | TypeofWork_key
  | DistrictEngineeringOffice_key
  | LegislativeDistrict_key

type_synonym FilterState = "facet \<Rightarrow> string"

definition initialFilters :: FilterState where
  "initialFilters = (\<lambda>k. [])"

text \<open>
  \<open>handleFilterChange\<close> of table.tsx (lines 625 to 637): spread the old state, store the
  value under the computed key, reset \<open>Province\<close> when the key is \<open>Region\<close>.
\<close>

definition handleFilterChange :: "FilterState \<Rightarrow> facet \<Rightarrow> string \<Rightarrow> FilterState" where
  "handleFilterChange filters filterName v =
     (let newFilters = filters(filterName := v);
          newFilters = (if filterName = Region_key then newFilters(Province_key := []) else newFilters)
      in newFilters)"

text \<open>
  \<open>buildFilterString\<close> of table.tsx (lines 640 to 684): the clauses are pushed in source
  order and joined by \<open>' AND '\<close>.
\<close>

definition buildFilterString :: "FilterState \<Rightarrow> string" where
  \<open>buildFilterString filters =
     (let filterStrings = [];
          filterStrings = filterStrings @ [''type = "flood_control"''];
          filterStrings =
            (if truthy (filters InfraYear_key) \<and> truthy (trim (filters InfraYear_key))
             then filterStrings @ [''FundingYear = '' @ trim (filters InfraYear_key)]
             else filterStrings);
          filterStrings =
            (if truthy (filters Region_key) \<and> truthy (trim (filters Region_key))
             then filterStrings @ [''Region = "'' @ trim (filters Region_key) @ ''"'']
             else filterStrings);
          filterStrings =
            (if truthy (filters Province_key) \<and> truthy (trim (filters Province_key))
             then filterStrings @ [''Province = "'' @ trim (filters Province_key) @ ''"'']
             else filterStrings);
          filterStrings =
            (if truthy (filters TypeofWork_key) \<and> truthy (trim (filters TypeofWork_key))
             then filterStrings @ [''TypeofWork = "'' @ trim (filters TypeofWork_key) @ ''"'']
             else filterStrings);
          filterStrings =
            (if truthy (filters DistrictEngineeringOffice_key)
                \<and> truthy (trim (filters DistrictEngineeringOffice_key))
             then filterStrings @
               [''DistrictEngineeringOffice = "'' @ trim (filters DistrictEngineeringOffice_key) @ ''"'']
             else filterStrings);
          filterStrings =
            (if truthy (filters LegislativeDistrict_key) \<and> truthy (trim (filters LegislativeDistrict_key))
             then filterStrings @
               [''LegislativeDistrict = "'' @ trim (filters LegislativeDistrict_key) @ ''"'']
             else filterStrings)
      in if length filterStrings > 0 then join '' AND '' filterStrings else [])\<close>

text \<open>
  The predicate in the specification's words, for comparison with the code: the fixed
  record-type clause, then one equality clause for each set facet, in the fixed order of
  the facets. A facet is set when its value is not blank (the guard
  \<open>filters.X && filters.X.trim()\<close> of the code); the clause carries the trimmed value,
  in double quotes except for the numeric year, which the index knows as
  \<open>FundingYear\<close>.
\<close>

definition facetOrder :: "facet list" where
  "facetOrder = [InfraYear_key, Region_key, Province_key, TypeofWork_key,
     DistrictEngineeringOffice_key, LegislativeDistrict_key]"

definition facetIsSet :: "FilterState \<Rightarrow> facet \<Rightarrow> bool" where
  "facetIsSet filters k = (trim (filters k) \<noteq> [])"

fun indexField :: "facet \<Rightarrow> string" where
  "indexField InfraYear_key = ''FundingYear''"
| "indexField Region_key = ''Region''"
| "indexField Province_key = ''Province''"
| "indexField TypeofWork_key = ''TypeofWork''"
| "indexField DistrictEngineeringOffice_key = ''DistrictEngineeringOffice''"
| "indexField LegislativeDistrict_key = ''LegislativeDistrict''"

definition quoted :: "string \<Rightarrow> string" where
  \<open>quoted v = ''"'' @ v @ ''"''\<close>

definition equalityClause :: "FilterState \<Rightarrow> facet \<Rightarrow> string" where
  "equalityClause filters k =
     indexField k @ '' = '' @
       (if k = InfraYear_key then trim (filters k) else quoted (trim (filters k)))"

definition typeClause :: string where
  \<open>typeClause = ''type = "flood_control"''\<close>

definition specClauses :: "FilterState \<Rightarrow> string list" where
  "specClauses filters =
     typeClause # map (equalityClause filters) (filter (facetIsSet filters) facetOrder)"

text \<open>
  The dashboard page (index.tsx) keeps the search term and the flag \<open>filtersApplied\<close>
  beside the filters. \<open>checkIfFiltersApplied\<close> (lines 523 to 532),
  \<open>handleFilterChange\<close> (lines 535 to 550) and \<open>handleSearchChange\<close>
  (lines 553 to 556) are its only writers. \<open>Object.values(filters)\<close> lists the six
  values in the order of the keys.
\<close>

record dashboard =
  filters :: FilterState
  searchTerm :: string
  filtersApplied :: bool

definition initialDashboard :: dashboard where
  "initialDashboard = \<lparr>filters = initialFilters, searchTerm = [], filtersApplied = False\<rparr>"

definition checkIfFiltersApplied :: "FilterState \<Rightarrow> string \<Rightarrow> bool" where
  "checkIfFiltersApplied fs term =
     (if truthy term \<and> trim term \<noteq> [] then True
      else list_ex (\<lambda>v. truthy v \<and> trim v \<noteq> []) (map fs facetOrder))"

definition handleFilterChange_index :: "dashboard \<Rightarrow> facet \<Rightarrow> string \<Rightarrow> dashboard" where
  "handleFilterChange_index s filterName v =
     (let newFilters = (filters s)(filterName := v);
          newFilters = (if filterName = Region_key then newFilters(Province_key := []) else newFilters)
      in s\<lparr>filters := newFilters,
            filtersApplied := checkIfFiltersApplied newFilters (searchTerm s)\<rparr>)"

definition handleSearchChange :: "dashboard \<Rightarrow> string \<Rightarrow> dashboard" where
  "handleSearchChange s v =
     s\<lparr>searchTerm := v, filtersApplied := checkIfFiltersApplied (filters s) v\<rparr>"

text \<open>The user's interactions with the dashboard's filter sidebar, run from the initial state.\<close>

datatype interaction = FilterChange facet string | SearchChange string

fun interact :: "dashboard \<Rightarrow> interaction \<Rightarrow> dashboard" where
  "interact s (FilterChange k v) = handleFilterChange_index s k v"
| "interact s (SearchChange v) = handleSearchChange s v"

definition dashboardAfter :: "interaction list \<Rightarrow> dashboard" where
  "dashboardAfter is = foldl interact initialDashboard is"

section \<open>JavaScript numbers\<close>

text \<open>
  A number is \<open>NaN\<close>, an infinity or a finite double, kept as the rational it denotes
  (the two zeros are one value). Every parsed literal and every sum is rounded to the
  nearest double, a tie going to the even significand: \<open>toDouble\<close> finds the binade
  \<open>e\<close> of the magnitude, not below the exponent -1022 of the subnormal range, rounds
  to a multiple of the unit \<open>2^(e - 52)\<close> in the last place, and overflows to an
  infinity from \<open>2^1024\<close> on. \<open>x || 0\<close> replaces the falsy numbers \<open>NaN\<close> and
  \<open>0\<close> by \<open>0\<close>.
\<close>

datatype jsnum = NaN | NegInf | Fin rat | PosInf

fun bitLength :: "nat \<Rightarrow> nat" where
  "bitLength n = (if n = 0 then 0 else Suc (bitLength (n div 2)))"

declare bitLength.simps [simp del]

definition binade :: "rat \<Rightarrow> int" where
  "binade a =
     (let (p, q) = quotient_of a;
          k = int (bitLength (nat p)) - int (bitLength (nat q))
      in if 2 powi k \<le> a then k else k - 1)"

definition roundHalfEven :: "rat \<Rightarrow> int" where
  "roundHalfEven x =
     (let f = \<lfloor>x\<rfloor>; d = x - of_int f
      in if d < 1 / 2 then f else if 1 / 2 < d then f + 1 else if even f then f else f + 1)"

definition overflowThreshold :: rat where
  "overflowThreshold = 2 powi 1024"

definition toDouble :: "rat \<Rightarrow> jsnum" where
  "toDouble q =
     (if q = 0 then Fin 0
      else
        (let a = \<bar>q\<bar>;
             e = max (binade a) (- 1022);
             ulp = 2 powi (e - 52);
             r = of_int (roundHalfEven (a / ulp)) * ulp
         in if overflowThreshold \<le> r then (if 0 < q then PosInf else NegInf)
            else Fin (if 0 < q then r else - r)))"

text \<open>Every double is a whole multiple of the smallest subnormal \<open>2^-1074\<close>.\<close>

definition onGrid :: "rat \<Rightarrow> bool" where
  "onGrid r = (\<exists>m::int. r = of_int m * 2 powi (- 1074))"

fun js_neg :: "jsnum \<Rightarrow> jsnum" where
  "js_neg NaN = NaN"
| "js_neg NegInf = PosInf"
| "js_neg PosInf = NegInf"
| "js_neg (Fin q) = Fin (- q)"

fun js_add :: "jsnum \<Rightarrow> jsnum \<Rightarrow> jsnum" where
  "js_add (Fin a) (Fin b) = toDouble (a + b)"
| "js_add NaN y = NaN"
| "js_add x NaN = NaN"
| "js_add PosInf NegInf = NaN"
| "js_add NegInf PosInf = NaN"
| "js_add PosInf y = PosInf"
| "js_add x PosInf = PosInf"
| "js_add NegInf y = NegInf"
| "js_add x NegInf = NegInf"

definition js_sub :: "jsnum \<Rightarrow> jsnum \<Rightarrow> jsnum" where
  "js_sub x y = js_add x (js_neg y)"

fun js_positive :: "jsnum \<Rightarrow> bool" where
  "js_positive PosInf = True"
| "js_positive (Fin q) = (0 < q)"
| "js_positive v = False"

definition orZero :: "jsnum \<Rightarrow> jsnum" where
  "orZero v = (if v = NaN \<or> v = Fin 0 then Fin 0 else v)"

text \<open>
  \<open>StrDecimalLiteral\<close> of the language standard: an optional sign, then \<open>Infinity\<close> or
  decimal digits with an optional fraction and an optional exponent. \<open>scanDecimal\<close>
  returns the value of the longest prefix that is such a literal, as a double, and the
  rest of the string. \<open>parseFloat\<close> skips leading white space and takes that prefix, \<open>NaN\<close> when
  there is none. \<open>Number\<close> applied to a string trims it, maps the empty string to 0
  and otherwise needs the whole string to be a decimal literal or an unsigned
  hexadecimal, octal or binary integer literal.
\<close>

definition isDigit :: "char \<Rightarrow> bool" where
  "isDigit c = (c \<in> set ''0123456789'')"

definition digitValue :: "char \<Rightarrow> nat" where
  "digitValue c =
     (case map_of
        [(CHR ''0'', 0), (CHR ''1'', 1), (CHR ''2'', 2), (CHR ''3'', 3), (CHR ''4'', 4),
         (CHR ''5'', 5), (CHR ''6'', 6), (CHR ''7'', 7), (CHR ''8'', 8), (CHR ''9'', 9),
         (CHR ''a'', 10), (CHR ''b'', 11), (CHR ''c'', 12), (CHR ''d'', 13), (CHR ''e'', 14),
         (CHR ''f'', 15), (CHR ''A'', 10), (CHR ''B'', 11), (CHR ''C'', 12), (CHR ''D'', 13),
         (CHR ''E'', 14), (CHR ''F'', 15)] c of
        Some d \<Rightarrow> d
      | None \<Rightarrow> 16)"

definition digitsValue :: "nat \<Rightarrow> string \<Rightarrow> nat" where
  "digitsValue radix ds = foldl (\<lambda>n c. radix * n + digitValue c) 0 ds"

definition pow10 :: "int \<Rightarrow> rat" where
  "pow10 e = (if 0 \<le> e then 10 ^ nat e else 1 / 10 ^ nat (- e))"

definition scanExponent :: "string \<Rightarrow> int \<times> string" where
  "scanExponent r =
     (case r of
        [] \<Rightarrow> (0, r)
      | c # r' \<Rightarrow>
          if c = CHR ''e'' \<or> c = CHR ''E'' then
            (let sgn = (if r' \<noteq> [] \<and> hd r' = CHR ''-'' then - 1 else (1::int));
                 r'' = (if r' \<noteq> [] \<and> (hd r' = CHR ''-'' \<or> hd r' = CHR ''+'') then tl r' else r');
                 ds = takeWhile isDigit r''
             in if ds = [] then (0, r)
                else (sgn * int (digitsValue 10 ds), dropWhile isDigit r''))
          else (0, r))"

definition scanUnsigned :: "string \<Rightarrow> (jsnum \<times> string) option" where
  "scanUnsigned u =
     (if take 8 u = ''Infinity'' then Some (PosInf, drop 8 u)
      else
        (let ip = takeWhile isDigit u;
             r1 = dropWhile isDigit u;
             hasDot = (r1 \<noteq> [] \<and> hd r1 = CHR ''.'');
             fp = (if hasDot then takeWhile isDigit (tl r1) else []);
             r2 = (if hasDot then dropWhile isDigit (tl r1) else r1)
         in if ip = [] \<and> fp = [] then None
            else
              (let (e, r3) = scanExponent r2
               in Some (toDouble (of_nat (digitsValue 10 (ip @ fp)) * pow10 (e - int (length fp))),
                        r3))))"

definition scanDecimal :: "string \<Rightarrow> (jsnum \<times> string) option" where
  "scanDecimal t =
     (case t of
        [] \<Rightarrow> None
      | c # u \<Rightarrow>
          if c = CHR ''+'' then scanUnsigned u
          else if c = CHR ''-'' then map_option (\<lambda>(v, r). (js_neg v, r)) (scanUnsigned u)
          else scanUnsigned t)"

definition parseFloat :: "string \<Rightarrow> jsnum" where
  "parseFloat s = (case scanDecimal (trimStart s) of None \<Rightarrow> NaN | Some (v, r) \<Rightarrow> v)"

definition scanRadixLiteral :: "string \<Rightarrow> jsnum option" where
  "scanRadixLiteral t =
     (case t of
        z # c # ds \<Rightarrow>
          (let radix =
                 (if c = CHR ''x'' \<or> c = CHR ''X'' then 16
                  else if c = CHR ''o'' \<or> c = CHR ''O'' then 8
                  else if c = CHR ''b'' \<or> c = CHR ''B'' then 2
                  else (0::nat))
           in if z = CHR ''0'' \<and> radix \<noteq> 0 \<and> ds \<noteq> [] \<and> list_all (\<lambda>d. digitValue d < radix) ds
              then Some (toDouble (of_nat (digitsValue radix ds)))
              else None)
      | _ \<Rightarrow> None)"

definition stringToNumber :: "string \<Rightarrow> jsnum" where
  "stringToNumber s =
     (let t = trim s
      in if t = [] then Fin 0
         else (case scanDecimal t of
                 Some (v, []) \<Rightarrow> v
               | _ \<Rightarrow> (case scanRadixLiteral t of Some v \<Rightarrow> v | None \<Rightarrow> NaN)))"

text \<open>\<open>Number(x)\<close> for an optional string: \<open>undefined\<close> converts to \<open>NaN\<close>.\<close>

definition Number :: "string option \<Rightarrow> jsnum" where
  "Number x = (case x of None \<Rightarrow> NaN | Some s \<Rightarrow> stringToNumber s)"

section \<open>Hits and query results\<close>

text \<open>
  \<open>FloodControlHit\<close> (table.tsx, lines 197 to 208 and 959 to 972): every property is an
  optional string, \<open>None\<close> being \<open>undefined\<close>. \<open>useHits()\<close> yields the hits of the
  current batch and \<open>results?.nbHits\<close>, which is \<open>None\<close> while there are no results.
\<close>

record hit =
  GlobalID :: "string option"
  objectID :: "string option"
  ProjectDescription :: "string option"
  InfraYear :: "string option"
  Region :: "string option"
  Province :: "string option"
  Municipality :: "string option"
  TypeofWork :: "string option"
  Contractor :: "string option"
  ContractCost :: "string option"
  DistrictEngineeringOffice :: "string option"
  LegislativeDistrict :: "string option"

definition totalHitsOf :: "nat option \<Rightarrow> nat" where
  "totalHitsOf nbHits = (case nbHits of None \<Rightarrow> 0 | Some n \<Rightarrow> n)"

text \<open>\<open>Boolean\<close> on an optional string: \<open>undefined\<close> and the empty string are falsy.\<close>

definition Boolean :: "string option \<Rightarrow> bool" where
  "Boolean x = (case x of None \<Rightarrow> False | Some s \<Rightarrow> truthy s)"

text \<open>\<open>new Set(xs).size\<close>: the number of distinct elements.\<close>

definition setSize :: "'a list \<Rightarrow> nat" where
  "setSize xs = length (remdups xs)"

section \<open>Summary statistics\<close>

text \<open>
  \<open>DashboardStatistics\<close> of index.tsx (lines 90 to 118). The three numbers are the values
  before \<open>toLocaleString\<close> formats them.
\<close>

record statistics =
  totalProjects :: nat
  totalCost :: jsnum
  uniqueContractors :: nat

definition defaultStats :: statistics where
  "defaultStats = \<lparr>totalProjects = 9855, totalCost = Fin 547603497105, uniqueContractors = 2409\<rparr>"

definition DashboardStatistics :: "hit list \<Rightarrow> nat option \<Rightarrow> statistics" where
  "DashboardStatistics hits nbHits =
     (let totalHits = totalHitsOf nbHits;
          isFiltered = (totalHits \<noteq> 0 \<and> totalHits \<noteq> totalProjects defaultStats)
      in if isFiltered
         then \<lparr>totalProjects = totalHits,
               totalCost = foldl (\<lambda>sum h. js_add sum (orZero (Number (ContractCost h)))) (Fin 0) hits,
               uniqueContractors = setSize (filter Boolean (map Contractor hits))\<rparr>
         else defaultStats)"

text \<open>
  The statistics block of \<open>FloodControlProjects\<close> (index.tsx, lines 809 to 851): the live
  component when \<open>filtersApplied\<close> holds, the three literals otherwise.
\<close>

definition statisticsPanel :: "dashboard \<Rightarrow> hit list \<Rightarrow> nat option \<Rightarrow> statistics" where
  "statisticsPanel s hits nbHits =
     (if filtersApplied s then DashboardStatistics hits nbHits
      else \<lparr>totalProjects = 9855, totalCost = Fin 547603497105, uniqueContractors = 2409\<rparr>)"

text \<open>
  \<open>ResultsStatistics\<close> of table.tsx (lines 286 to 310), its unique-contractor count.
\<close>

definition nonBlank :: "string option \<Rightarrow> bool" where
  "nonBlank x = (case x of None \<Rightarrow> False | Some s \<Rightarrow> truthy s \<and> trim s \<noteq> [])"

definition uniqueContractors_table :: "hit list \<Rightarrow> nat" where
  "uniqueContractors_table hits =
     setSize (map Contractor (filter (\<lambda>h. nonBlank (Contractor h)) hits))"

text \<open>Hits that carry nothing but one property, for the concrete samples below.\<close>

definition noHit :: hit where
  "noHit = \<lparr>GlobalID = None, objectID = None, ProjectDescription = None, InfraYear = None,
     Region = None, Province = None, Municipality = None, TypeofWork = None, Contractor = None,
     ContractCost = None, DistrictEngineeringOffice = None, LegislativeDistrict = None\<rparr>"

definition contractorSample :: "hit list" where
  "contractorSample =
     map (\<lambda>c. noHit\<lparr>Contractor := Some c\<rparr>) [''A'', '''', '' '', ''B'', ''A'']"

text \<open>A sequence of filter changes on the table page, applied in order.\<close>

definition applyChanges :: "FilterState \<Rightarrow> (facet \<times> string) list \<Rightarrow> FilterState" where
  "applyChanges fs changes = foldl (\<lambda>f (k, v). handleFilterChange f k v) fs changes"

section \<open>Sorting arrays\<close>

text \<open>
  \<open>Array.prototype.sort(comparefn)\<close> is stable. The comparator's result \<open>v\<close> puts its
  first argument after the second when \<open>v > 0\<close> and before it when \<open>v < 0\<close>; \<open>0\<close>
  and \<open>NaN\<close> both mean that the two are equal. For a consistent comparator the sorted
  order is fixed by the language standard, and the insertion sort below computes it:
  an element moves behind exactly those elements it is strictly greater than. For an
  inconsistent comparator (one that returns \<open>NaN\<close> for a pair is inconsistent) the
  standard leaves the order to the implementation.
\<close>

fun insertSorted :: "('a \<Rightarrow> 'a \<Rightarrow> jsnum) \<Rightarrow> 'a \<Rightarrow> 'a list \<Rightarrow> 'a list" where
  "insertSorted cmp x [] = [x]"
| "insertSorted cmp x (y # ys) =
     (if js_positive (cmp x y) then y # insertSorted cmp x ys else x # y # ys)"

definition arraySort :: "('a \<Rightarrow> 'a \<Rightarrow> jsnum) \<Rightarrow> 'a list \<Rightarrow> 'a list" where
  "arraySort cmp xs = foldr (insertSorted cmp) xs []"

text \<open>
  \<open>xs.slice(start, end)\<close>: a negative index counts from the end, and both indices are
  clamped to the array.
\<close>

definition slice :: "'a list \<Rightarrow> int \<Rightarrow> int \<Rightarrow> 'a list" where
  "slice xs start end' =
     (let len = int (length xs);
          k = (if start < 0 then max (len + start) 0 else min start len);
          final = (if end' < 0 then max (len + end') 0 else min end' len)
      in take (nat (final - k)) (drop (nat k) xs))"

text \<open>
  \<open>s.toLowerCase()\<close> on code units below 256: the letters A to Z and the accented
  capitals C0 to DE (without the multiplication sign D7) move up by 32.
\<close>

definition toLowerChar :: "char \<Rightarrow> char" where
  "toLowerChar c =
     (case map_of
        (zip (''ABCDEFGHIJKLMNOPQRSTUVWXYZ'' @
              [CHR 0xC0, CHR 0xC1, CHR 0xC2, CHR 0xC3, CHR 0xC4, CHR 0xC5, CHR 0xC6, CHR 0xC7,
               CHR 0xC8, CHR 0xC9, CHR 0xCA, CHR 0xCB, CHR 0xCC, CHR 0xCD, CHR 0xCE, CHR 0xCF,
               CHR 0xD0, CHR 0xD1, CHR 0xD2, CHR 0xD3, CHR 0xD4, CHR 0xD5, CHR 0xD6,
               CHR 0xD8, CHR 0xD9, CHR 0xDA, CHR 0xDB, CHR 0xDC, CHR 0xDD, CHR 0xDE])
             (''abcdefghijklmnopqrstuvwxyz'' @
              [CHR 0xE0, CHR 0xE1, CHR 0xE2, CHR 0xE3, CHR 0xE4, CHR 0xE5, CHR 0xE6, CHR 0xE7,
               CHR 0xE8, CHR 0xE9, CHR 0xEA, CHR 0xEB, CHR 0xEC, CHR 0xED, CHR 0xEE, CHR 0xEF,
               CHR 0xF0, CHR 0xF1, CHR 0xF2, CHR 0xF3, CHR 0xF4, CHR 0xF5, CHR 0xF6,
               CHR 0xF8, CHR 0xF9, CHR 0xFA, CHR 0xFB, CHR 0xFC, CHR 0xFD, CHR 0xFE])) c of
        Some l \<Rightarrow> l
      | None \<Rightarrow> c)"

definition toLowerCase :: "string \<Rightarrow> string" where
  "toLowerCase s = map toLowerChar s"

text \<open>\<open>x || d\<close> for an optional string \<open>x\<close>: \<open>undefined\<close> and the empty string give \<open>d\<close>.\<close>

definition orString :: "string option \<Rightarrow> string \<Rightarrow> string" where
  "orString x d = (case x of None \<Rightarrow> d | Some s \<Rightarrow> if s = [] then d else s)"

section \<open>Table view\<close>

text \<open>
  \<open>TableHits\<close> of table.tsx (lines 347 to 609) holds the sort field, the sort direction
  and the current page. The sort field is the name of one of the eight columns that have
  a \<open>SortHeader\<close>; \<open>property a field\<close> is \<open>a[sortField]\<close>. Strings compare by
  \<open><\<close> as lists of code units.
\<close>

datatype sort_field =
    ProjectDescription_col
  | InfraYear_col
  | Region_col
  | Province_col
  | Municipality_col
  | TypeofWork_col
  | Contractor_col
  | ContractCost_col

datatype sort_direction = asc | desc

record tableState =
  sortField :: sort_field
  sortDirection :: sort_direction
  currentPage :: int

definition initialTable :: tableState where
  "initialTable = \<lparr>sortField = ProjectDescription_col, sortDirection = asc, currentPage = 0\<rparr>"

fun property :: "hit \<Rightarrow> sort_field \<Rightarrow> string option" where
  "property a ProjectDescription_col = ProjectDescription a"
| "property a InfraYear_col = InfraYear a"
| "property a Region_col = Region a"
| "property a Province_col = Province a"
| "property a Municipality_col = Municipality a"
| "property a TypeofWork_col = TypeofWork a"
| "property a Contractor_col = Contractor a"
| "property a ContractCost_col = ContractCost a"

text \<open>The comparator of \<open>sortedHits\<close> (lines 360 to 377).\<close>

definition compareHits :: "sort_field \<Rightarrow> sort_direction \<Rightarrow> hit \<Rightarrow> hit \<Rightarrow> jsnum" where
  "compareHits field direction a b =
     (if field = ContractCost_col then
        (let costA = parseFloat (orString (property a field) ''0'');
             costB = parseFloat (orString (property b field) ''0'')
         in if direction = asc then js_sub costA costB else js_sub costB costA)
      else
        (let valueA = orString (map_option toLowerCase (property a field)) [];
             valueB = orString (map_option toLowerCase (property b field)) []
         in if valueA < valueB then (if direction = asc then Fin (- 1) else Fin 1)
            else if valueA > valueB then (if direction = asc then Fin 1 else Fin (- 1))
            else Fin 0))"

definition sortedHits :: "tableState \<Rightarrow> hit list \<Rightarrow> hit list" where
  "sortedHits s hits = arraySort (compareHits (sortField s) (sortDirection s)) hits"

definition handleSort :: "tableState \<Rightarrow> sort_field \<Rightarrow> tableState" where
  "handleSort s field =
     (if sortField s = field
      then s\<lparr>sortDirection := (if sortDirection s = asc then desc else asc)\<rparr>
      else s\<lparr>sortField := field, sortDirection := asc\<rparr>)"

definition handlePageChange :: "tableState \<Rightarrow> int \<Rightarrow> tableState" where
  "handlePageChange s selectedPage = s\<lparr>currentPage := selectedPage\<rparr>"

text \<open>The page range and the number of pages (lines 448 to 454).\<close>

definition hitsPerPage :: int where
  "hitsPerPage = 20"

definition startIndex :: "tableState \<Rightarrow> int" where
  "startIndex s = currentPage s * hitsPerPage"

definition endIndex :: "tableState \<Rightarrow> hit list \<Rightarrow> int" where
  "endIndex s rows = min (startIndex s + hitsPerPage) (int (length rows))"

definition paginatedHits :: "tableState \<Rightarrow> hit list \<Rightarrow> hit list" where
  "paginatedHits s hits =
     (let rows = sortedHits s hits in slice rows (startIndex s) (endIndex s rows))"

definition totalPages :: "hit list \<Rightarrow> int" where
  "totalPages rows = \<lceil>rat_of_nat (length rows) / rat_of_int hitsPerPage\<rceil>"

text \<open>
  The pagination controls (lines 499 to 606) are rendered when there is more than one
  page: the previous button, disabled on page 0; up to five page-number buttons, the
  button in slot \<open>i\<close> leading to \<open>pageToShow\<close> and missing when that is not a page;
  and the next button, disabled on the last page. A click on a control that is not
  rendered or is disabled leaves the state as it is.
\<close>

datatype control = PreviousButton | PageButton nat | NextButton

definition pageToShow :: "tableState \<Rightarrow> int \<Rightarrow> int \<Rightarrow> int" where
  "pageToShow s pages i =
     (if pages \<le> 5 then i
      else if currentPage s < 3 then i
      else if currentPage s > pages - 4 then pages - 5 + i
      else currentPage s - 2 + i)"

definition click :: "hit list \<Rightarrow> tableState \<Rightarrow> control \<Rightarrow> tableState" where
  "click hits s c =
     (let pages = totalPages (sortedHits s hits)
      in if pages > 1 then
           (case c of
              PreviousButton \<Rightarrow>
                if currentPage s = 0 then s
                else handlePageChange s (max 0 (currentPage s - 1))
            | PageButton i \<Rightarrow>
                if int i < min 5 pages then
                  (if pageToShow s pages (int i) \<ge> pages then s
                   else handlePageChange s (pageToShow s pages (int i)))
                else s
            | NextButton \<Rightarrow>
                if currentPage s \<ge> pages - 1 then s
                else handlePageChange s (min (pages - 1) (currentPage s + 1)))
         else s)"

text \<open>What the user can do to the table over one batch of hits.\<close>

datatype tableAction = SortHeader sort_field | Control control

fun tableStep :: "hit list \<Rightarrow> tableState \<Rightarrow> tableAction \<Rightarrow> tableState" where
  "tableStep hits s (SortHeader field) = handleSort s field"
| "tableStep hits s (Control c) = click hits s c"

definition tableAfter :: "hit list \<Rightarrow> tableAction list \<Rightarrow> tableState" where
  "tableAfter hits as = foldl (tableStep hits) initialTable as"

text \<open>The cost the comparator sees, and hits that carry an identifier and a cost.\<close>

definition costOf :: "hit \<Rightarrow> jsnum" where
  "costOf h = parseFloat (orString (ContractCost h) ''0'')"

fun isFin :: "jsnum \<Rightarrow> bool" where
  "isFin (Fin q) = True"
| "isFin v = False"

fun finValue :: "jsnum \<Rightarrow> rat" where
  "finValue (Fin q) = q"
| "finValue v = 0"

definition costHit :: "string \<Rightarrow> string \<Rightarrow> hit" where
  "costHit ident cost = noHit\<lparr>GlobalID := Some ident, ContractCost := Some cost\<rparr>"


definition costValue :: "hit \<Rightarrow> rat" where
  "costValue h = finValue (costOf h)"

text \<open>
  The table sorted by cost: one click on the cost header from the initial state sorts
  ascending, a second click toggles to descending.
\<close>

definition costAscending :: tableState where
  "costAscending = handleSort initialTable ContractCost_col"

definition costDescending :: tableState where
  "costDescending = handleSort costAscending ContractCost_col"

text \<open>The key of the other columns: the lower-cased property, empty when missing.\<close>

definition textKey :: "sort_field \<Rightarrow> hit \<Rightarrow> string" where
  "textKey field h = orString (map_option toLowerCase (property h field)) []"


text \<open>The page index is one of the pages of the batch (page 0 when the batch is empty).\<close>

definition pageOk :: "hit list \<Rightarrow> tableState \<Rightarrow> bool" where
  "pageOk hits s = (0 \<le> currentPage s \<and> currentPage s \<le> max 0 (totalPages hits - 1))"

definition fortyFive :: "hit list" where
  "fortyFive = replicate 45 noHit"


section \<open>Chart series\<close>

text \<open>
  A lookup file holds the entries \<open>{value, count, regCode?}\<close> of one facet. The files are
  data, so the components below take their contents as parameters.
\<close>

record dataItem =
  itemValue :: string
  itemCount :: nat
  regCode :: "string option"

text \<open>
  The frequency counters are objects used as dictionaries: the own properties in the
  order of their creation, each with its value. \<open>assign\<close> is \<open>obj[key] = v\<close>, which
  keeps the place of an existing property. \<open>Object.entries\<close> lists the properties whose
  name is an array index (a canonical decimal numeral below \<open>2^32 - 1\<close>) first, in
  ascending numeric order, and the others in the order of their creation.

  \<open>countUp\<close> is \<open>obj[key] = (obj[key] || 0) + 1\<close> on an object created by \<open>{}\<close>.
  The read finds an own property, or else a property inherited from
  \<open>Object.prototype\<close>, or else \<open>undefined\<close>. An own count is incremented (counts stay
  far below \<open>2^53\<close>, where the increment is exact) and a missing property starts at 1.
  An inherited function is truthy, and adding 1 to it gives its source text followed by
  \<open>1\<close>, which the assignment stores as an own property; adding 1 to such a string
  appends another \<open>1\<close>. \<open>Text\<close> stands for these strings: their content is not
  kept, none of them is numeric, so each converts to \<open>NaN\<close>. The inherited
  \<open>__proto__\<close> reads the prototype object, and assigning a string to it changes
  nothing, so that key never becomes a property.
\<close>

datatype tallied = Count nat | Text

type_synonym frequency = "(string \<times> tallied) list"

fun assign :: "(string \<times> 'v) list \<Rightarrow> string \<Rightarrow> 'v \<Rightarrow> (string \<times> 'v) list" where
  "assign [] key v = [(key, v)]"
| "assign ((k, c) # rest) key v = (if k = key then (k, v) # rest else (k, c) # assign rest key v)"

definition inheritedFunctions :: "string list" where
  "inheritedFunctions = [''constructor'', ''hasOwnProperty'', ''isPrototypeOf'',
     ''propertyIsEnumerable'', ''toLocaleString'', ''toString'', ''valueOf'',
     ''__defineGetter__'', ''__defineSetter__'', ''__lookupGetter__'', ''__lookupSetter__'']"

definition countUp :: "frequency \<Rightarrow> string \<Rightarrow> frequency" where
  "countUp freq key =
     (case map_of freq key of
        Some (Count c) \<Rightarrow> assign freq key (Count (c + 1))
      | Some Text \<Rightarrow> assign freq key Text
      | None \<Rightarrow>
          if key = ''__proto__'' then freq
          else if key \<in> set inheritedFunctions then assign freq key Text
          else assign freq key (Count 1))"

text \<open>The value of a property as a number, and the keys that no object inherits.\<close>

fun numberOf :: "tallied \<Rightarrow> jsnum" where
  "numberOf (Count c) = Fin (of_nat c)"
| "numberOf Text = NaN"

fun countOf :: "tallied \<Rightarrow> nat" where
  "countOf (Count c) = c"
| "countOf Text = 0"

definition plainKey :: "string option \<Rightarrow> bool" where
  "plainKey x =
     (case x of None \<Rightarrow> True | Some k \<Rightarrow> k \<notin> set (''__proto__'' # inheritedFunctions))"

definition isArrayIndex :: "string \<Rightarrow> bool" where
  "isArrayIndex k =
     (k \<noteq> [] \<and> list_all isDigit k \<and> (if hd k = CHR ''0'' then k = ''0'' else True)
      \<and> digitsValue 10 k < 2 ^ 32 - 1)"

definition entries :: "frequency \<Rightarrow> frequency" where
  "entries obj =
     sort_key (\<lambda>(k, c). digitsValue 10 k) (filter (\<lambda>(k, c). isArrayIndex k) obj)
     @ filter (\<lambda>(k, c). \<not> isArrayIndex k) obj"

text \<open>
  The counting loop of the charts: \<open>hits.forEach\<close> reads one property of each hit and
  counts it when the guard holds. The year chart guards with the truthiness of the value,
  the other three with \<open>x && x.trim() !== ''\<close>.
\<close>

definition tallyStep ::
  "(string option \<Rightarrow> bool) \<Rightarrow> (hit \<Rightarrow> string option) \<Rightarrow> frequency \<Rightarrow> hit \<Rightarrow> frequency" where
  "tallyStep guard field freq h =
     (case field h of
        None \<Rightarrow> freq
      | Some v \<Rightarrow> if guard (Some v) then countUp freq v else freq)"

definition tally :: "(string option \<Rightarrow> bool) \<Rightarrow> (hit \<Rightarrow> string option) \<Rightarrow> hit list \<Rightarrow> frequency" where
  "tally guard field hits = foldl (tallyStep guard field) [] hits"

text \<open>The comparators \<open>(a, b) => b.count - a.count\<close> on counted entries and on lookup items.\<close>

definition byCountDescending :: "string \<times> tallied \<Rightarrow> string \<times> tallied \<Rightarrow> jsnum" where
  "byCountDescending a b = js_sub (numberOf (snd b)) (numberOf (snd a))"

definition byItemCountDescending :: "dataItem \<Rightarrow> dataItem \<Rightarrow> jsnum" where
  "byItemCountDescending a b = js_sub (Fin (of_nat (itemCount b))) (Fin (of_nat (itemCount a)))"

text \<open>
  A chart datum is the pair of its label and its value: \<open>{name, Projects}\<close> for the
  year and region charts, \<open>{value, count}\<close> for the type-of-work chart. The value is a
  count, or whatever else the counter holds. The contractor chart adds the full name to
  the label, which is cut after 30 code units.
\<close>

definition isFiltered :: "nat option \<Rightarrow> bool" where
  "isFiltered nbHits = (totalHitsOf nbHits \<noteq> 0 \<and> totalHitsOf nbHits \<noteq> 9855)"

definition shortName :: "string \<Rightarrow> string" where
  "shortName fullName = (if length fullName > 30 then take 30 fullName @ ''...'' else fullName)"

text \<open>
  The series that \<open>FloodControlProjects\<close> computes from the lookup files for the first
  load (index.tsx, lines 467 to 520). \<open>localeCompare\<close> depends on the locale and is a
  parameter.
\<close>

definition yearlyChartData :: "(string \<Rightarrow> string \<Rightarrow> jsnum) \<Rightarrow> dataItem list \<Rightarrow> (string \<times> tallied) list" where
  "yearlyChartData localeCompare infraYearData =
     map (\<lambda>item. (itemValue item, Count (itemCount item)))
       (arraySort (\<lambda>a b. localeCompare (itemValue a) (itemValue b)) infraYearData)"

definition regionChartData :: "dataItem list \<Rightarrow> (string \<times> tallied) list" where
  "regionChartData regionData =
     map (\<lambda>item. (itemValue item, Count (itemCount item)))
       (slice (arraySort byItemCountDescending regionData) 0 10)"

definition typeWorkPieData :: "dataItem list \<Rightarrow> (string \<times> tallied) list" where
  "typeWorkPieData typeOfWorkData =
     map (\<lambda>item. (itemValue item, Count (itemCount item)))
       (slice (arraySort byItemCountDescending typeOfWorkData) 0 10)"

definition contractorChartData :: "dataItem list \<Rightarrow> (string \<times> tallied \<times> string) list" where
  "contractorChartData contractorData =
     map (\<lambda>item. (shortName (itemValue item), Count (itemCount item), itemValue item))
       (slice (arraySort byItemCountDescending contractorData) 0 10)"

text \<open>
  The chart components (index.tsx, lines 155 to 437). Each reads the hits and the total
  of its own query and chooses between the counted hits and the lookup file.
\<close>

definition YearlyChart ::
  "(string \<Rightarrow> string \<Rightarrow> jsnum) \<Rightarrow> dataItem list \<Rightarrow> hit list \<Rightarrow> nat option \<Rightarrow> (string \<times> tallied) list" where
  "YearlyChart localeCompare infraYearData hits nbHits =
     (if isFiltered nbHits then
        arraySort (\<lambda>a b. localeCompare (fst a) (fst b)) (entries (tally Boolean InfraYear hits))
      else
        map (\<lambda>item. (itemValue item, Count (itemCount item)))
          (arraySort (\<lambda>a b. localeCompare (itemValue a) (itemValue b)) infraYearData))"

definition RegionChart :: "dataItem list \<Rightarrow> hit list \<Rightarrow> nat option \<Rightarrow> (string \<times> tallied) list" where
  "RegionChart regionData hits nbHits =
     (if isFiltered nbHits then
        slice (arraySort byCountDescending (entries (tally nonBlank Region hits))) 0 10
      else
        map (\<lambda>item. (itemValue item, Count (itemCount item)))
          (slice (arraySort byItemCountDescending regionData) 0 10))"

definition TypeOfWorkChart :: "dataItem list \<Rightarrow> hit list \<Rightarrow> nat option \<Rightarrow> (string \<times> tallied) list" where
  "TypeOfWorkChart typeOfWorkData hits nbHits =
     (if isFiltered nbHits then
        slice (arraySort byCountDescending (entries (tally nonBlank TypeofWork hits))) 0 10
      else
        map (\<lambda>item. (itemValue item, Count (itemCount item)))
          (slice (arraySort byItemCountDescending typeOfWorkData) 0 10))"

definition ContractorChart ::
  "dataItem list \<Rightarrow> hit list \<Rightarrow> nat option \<Rightarrow> (string \<times> tallied \<times> string) list" where
  "ContractorChart contractorData hits nbHits =
     (if isFiltered nbHits then
        slice
          (arraySort (\<lambda>a b. js_sub (numberOf (fst (snd b))) (numberOf (fst (snd a))))
             (map (\<lambda>(fullName, c). (shortName fullName, c, fullName))
                (entries (tally nonBlank Contractor hits))))
          0 10
      else
        map (\<lambda>item. (shortName (itemValue item), Count (itemCount item), itemValue item))
          (slice (arraySort byItemCountDescending contractorData) 0 10))"


text \<open>A small region lookup and a dashboard with a region filter, for concrete runs.\<close>

definition regionLookup :: "dataItem list" where
  "regionLookup =
     [\<lparr>itemValue = ''Region I'', itemCount = 5, regCode = Some ''01''\<rparr>,
      \<lparr>itemValue = ''Region III'', itemCount = 9, regCode = Some ''03''\<rparr>]"

definition regionFiltered :: dashboard where
  "regionFiltered = dashboardAfter [FilterChange Region_key ''Region I'']"


text \<open>
  The sample in the specification's words: the distinct non-blank values of a facet in
  the hits, and the number of hits that carry a value. \<open>topTen\<close> is the live branch
  that the region and the type-of-work chart share.
\<close>

definition countedValues :: "(hit \<Rightarrow> string option) \<Rightarrow> hit list \<Rightarrow> string list" where
  "countedValues field hits = remdups (map the (filter nonBlank (map field hits)))"

definition valueCount :: "(hit \<Rightarrow> string option) \<Rightarrow> hit list \<Rightarrow> string \<Rightarrow> nat" where
  "valueCount field hits v = length (filter (\<lambda>h. field h = Some v) hits)"

definition topTen :: "(hit \<Rightarrow> string option) \<Rightarrow> hit list \<Rightarrow> (string \<times> tallied) list" where
  "topTen field hits = slice (arraySort byCountDescending (entries (tally nonBlank field hits))) 0 10"

definition lookupCount :: "frequency \<Rightarrow> string \<Rightarrow> nat" where
  "lookupCount freq v = (case map_of freq v of None \<Rightarrow> 0 | Some c \<Rightarrow> countOf c)"

definition allCounts :: "frequency \<Rightarrow> bool" where
  "allCounts freq = list_all (\<lambda>(k, c). c \<noteq> Text) freq"

text \<open>
  The three charts with a top-ten list, the facet each of them counts, and the entries
  of each as pairs of the facet value and its value in the counter.
\<close>

datatype topTenChart = RegionTopTen | TypeOfWorkTopTen | ContractorTopTen

fun chartField :: "topTenChart \<Rightarrow> hit \<Rightarrow> string option" where
  "chartField RegionTopTen = Region"
| "chartField TypeOfWorkTopTen = TypeofWork"
| "chartField ContractorTopTen = Contractor"

fun chartEntries :: "topTenChart \<Rightarrow> dataItem list \<Rightarrow> hit list \<Rightarrow> nat option \<Rightarrow> (string \<times> tallied) list" where
  "chartEntries RegionTopTen lookup hits nbHits = RegionChart lookup hits nbHits"
| "chartEntries TypeOfWorkTopTen lookup hits nbHits = TypeOfWorkChart lookup hits nbHits"
| "chartEntries ContractorTopTen lookup hits nbHits =
     map (\<lambda>(name, c, fullName). (fullName, c)) (ContractorChart lookup hits nbHits)"


text \<open>
  Three samples: ten hits of one region; ten hits of which one has the region
  \<open>__proto__\<close>; and 55 hits of ten regions, the first region once, the second twice, up
  to the tenth ten times.
\<close>

definition regionHit :: "string \<Rightarrow> hit" where
  "regionHit v = noHit\<lparr>Region := Some v\<rparr>"

definition tenSame :: "hit list" where
  "tenSame = replicate 10 (regionHit ''A'')"

definition protoSample :: "hit list" where
  "protoSample = regionHit ''__proto__'' # replicate 9 (regionHit ''a'')"

definition fiftyFive :: "hit list" where
  "fiftyFive =
     concat (map (\<lambda>(v, n). replicate n (regionHit v))
       [(''a'', 1), (''b'', 2), (''c'', 3), (''d'', 4), (''e'', 5),
        (''f'', 6), (''g'', 7), (''h'', 8), (''i'', 9), (''j'', 10)])"


section \<open>Export\<close>

text \<open>
  The query facade is an external service. Its answers to the successive page requests
  of one export are a list, each answer the hits of the page or a retrieval error.
\<close>

datatype retrievalError = RetrievalError string

type_synonym pageAnswers = "(retrievalError + hit list) list"

record exportFile =
  fileName :: string
  fileRows :: "hit list"

text \<open>
  Modelled from the spec: \<open>exportMeilisearchData\<close> of \<open>lib/exportData\<close> is imported by
  both pages and is not among the sources. By sections 4.4, 5 and 6 of the
  specification it retrieves all matching records page by page, one page in flight at a
  time and without retry, accumulates them into one ordered sequence and writes one file
  that holds them, named from the base label and a generated suffix; any retrieval error
  aborts the whole export, and the records retrieved so far are discarded.
\<close>

fun fetchAllPages :: "hit list \<Rightarrow> pageAnswers \<Rightarrow> retrievalError + hit list" where
  "fetchAllPages acc [] = Inr acc"
| "fetchAllPages acc (Inl e # rest) = Inl e"
| "fetchAllPages acc (Inr pageHits # rest) = fetchAllPages (acc @ pageHits) rest"

definition exportMeilisearchData :: "string \<Rightarrow> string \<Rightarrow> pageAnswers \<Rightarrow> retrievalError + exportFile" where
  "exportMeilisearchData filename suffix answers =
     (case fetchAllPages [] answers of
        Inl e \<Rightarrow> Inl e
      | Inr records \<Rightarrow> Inr \<lparr>fileName = filename @ suffix, fileRows = records\<rparr>)"

text \<open>
  What an export can change: the flag \<open>isExporting\<close>, the notices shown by \<open>alert\<close>,
  the files handed to the browser and the lines written by \<open>console.error\<close>.
\<close>

record exportState =
  isExporting :: bool
  alerts :: "string list"
  downloads :: "exportFile list"
  consoleErrors :: "string list"

text \<open>
  \<open>handleExportData\<close> of table.tsx (lines 706 to 734): set the flag, build the filter
  string, await the export inside \<open>try\<close>, report success or, in \<open>catch\<close>, log and
  report the failure, and reset the flag in \<open>finally\<close>. The facade answers for the
  filter string and the search term it is asked for.
\<close>

definition handleExportData ::
  "(string \<Rightarrow> string \<Rightarrow> pageAnswers) \<Rightarrow> string \<Rightarrow> FilterState \<Rightarrow> string \<Rightarrow> exportState \<Rightarrow> exportState" where
  "handleExportData facade suffix fs term st =
     (let st = st\<lparr>isExporting := True\<rparr>;
          filterString = buildFilterString fs;
          effectiveSearchTerm = term;
          st =
            (case exportMeilisearchData ''flood-control-projects-table'' suffix
                    (facade filterString effectiveSearchTerm) of
               Inr file \<Rightarrow>
                 st\<lparr>downloads := downloads st @ [file],
                     alerts := alerts st @ [''Data exported successfully!'']\<rparr>
             | Inl error \<Rightarrow>
                 st\<lparr>consoleErrors := consoleErrors st @ [''Error exporting data:''],
                     alerts := alerts st @ [''Failed to export data. Please try again.'']\<rparr>)
      in st\<lparr>isExporting := False\<rparr>)"

text \<open>
  \<open>handleExportData\<close> of index.tsx (lines 567 to 595) has the same shape. Its
  \<open>buildFilterString\<close> comes from \<open>./utils\<close>, which is not among the sources, and its
  notices are translations; both are parameters.
\<close>

definition handleExportData_index ::
  "(FilterState \<Rightarrow> string) \<Rightarrow> (string \<Rightarrow> string) \<Rightarrow> (string \<Rightarrow> string \<Rightarrow> pageAnswers) \<Rightarrow> string
     \<Rightarrow> FilterState \<Rightarrow> string \<Rightarrow> exportState \<Rightarrow> exportState" where
  "handleExportData_index buildFilterString_utils t facade suffix fs term st =
     (let st = st\<lparr>isExporting := True\<rparr>;
          filterString = buildFilterString_utils fs;
          effectiveSearchTerm = term;
          st =
            (case exportMeilisearchData ''flood-control-projects-visual'' suffix
                    (facade filterString effectiveSearchTerm) of
               Inr file \<Rightarrow>
                 st\<lparr>downloads := downloads st @ [file],
                     alerts := alerts st @ [t ''alerts.exportSuccess'']\<rparr>
             | Inl error \<Rightarrow>
                 st\<lparr>consoleErrors := consoleErrors st @ [''Error exporting data:''],
                     alerts := alerts st @ [t ''alerts.exportError'']\<rparr>)
      in st\<lparr>isExporting := False\<rparr>)"

text \<open>A facade whose second page fails, and one that answers two pages.\<close>

definition failingFacade :: "string \<Rightarrow> string \<Rightarrow> pageAnswers" where
  "failingFacade filterString term =
     [Inr [costHit ''a'' ''5''], Inl (RetrievalError ''timeout''), Inr [costHit ''c'' ''3'']]"

definition answeringFacade :: "string \<Rightarrow> string \<Rightarrow> pageAnswers" where
  "answeringFacade filterString term = [Inr [costHit ''a'' ''5''], Inr [costHit ''c'' ''3'']]"

definition idleExport :: exportState where
  "idleExport = \<lparr>isExporting = False, alerts = [], downloads = [], consoleErrors = []\<rparr>"


section \<open>Rounding to doubles\<close>

lemma bitLength_bounds: "n < 2 ^ bitLength n \<and> (0 < n \<longrightarrow> 2 ^ bitLength n \<le> 2 * n)"
proof (induction n rule: bitLength.induct)
  case (1 n)
  show ?case
  proof (cases "n = 0")
    case True
    then show ?thesis by (simp add: bitLength.simps)
  next
    case False
    then have b: "bitLength n = Suc (bitLength (n div 2))"
      by (simp add: bitLength.simps)
    have ih: "n div 2 < 2 ^ bitLength (n div 2)"
      "0 < n div 2 \<Longrightarrow> 2 ^ bitLength (n div 2) \<le> 2 * (n div 2)"
      using 1 [OF False] by simp_all
    have u: "n < 2 ^ bitLength n"
      using ih(1) b by simp
    have l: "2 ^ bitLength n \<le> 2 * n"
    proof (cases "n div 2 = 0")
      case True
      then have "n = 1" using False by linarith
      then show ?thesis
        using b True by (simp add: bitLength.simps)
    next
      case False
      then have "2 ^ bitLength (n div 2) \<le> 2 * (n div 2)"
        using ih(2) by simp
      then show ?thesis
        using b by simp
    qed
    show ?thesis using u l by simp
  qed
qed

lemma roundHalfEven_int: "roundHalfEven (of_int m) = m"
  by (simp add: roundHalfEven_def)

lemma roundHalfEven_ge: "\<lfloor>x\<rfloor> \<le> roundHalfEven x"
  by (simp add: roundHalfEven_def Let_def)


lemma bitLength_rat:
  assumes "0 < p"
  shows "rat_of_int p < 2 ^ bitLength (nat p)" "2 ^ bitLength (nat p) \<le> 2 * rat_of_int p"
proof -
  have n: "nat p < 2 ^ bitLength (nat p)" "2 ^ bitLength (nat p) \<le> 2 * nat p"
    using bitLength_bounds [of "nat p"] assms by simp_all
  have i: "p < 2 ^ bitLength (nat p)"
    using n(1) assms by (metis nat_less_iff of_nat_numeral of_nat_power order_less_imp_le)
  have j: "(2::int) ^ bitLength (nat p) \<le> 2 * p"
  proof -
    have "int (2 ^ bitLength (nat p)) \<le> int (2 * nat p)"
      using n(2) by (simp only: of_nat_le_iff)
    then show ?thesis using assms by simp
  qed
  show "rat_of_int p < 2 ^ bitLength (nat p)"
    using i by (metis of_int_less_iff of_int_numeral of_int_power)
  show "2 ^ bitLength (nat p) \<le> 2 * rat_of_int p"
    using j by (metis of_int_le_iff of_int_numeral of_int_power of_int_mult)
qed

lemma binade_bounds:
  assumes "0 < a"
  shows "2 powi (binade a) \<le> a \<and> a < 2 powi (binade a + 1)"
proof -
  obtain p q where pq: "quotient_of a = (p, q)"
    by (cases "quotient_of a")
  have q: "0 < q" using pq by (rule quotient_of_denom_pos)
  have a: "a = of_int p / of_int q" using pq by (rule quotient_of_div)
  have p: "0 < p"
    using assms q a by (simp add: zero_less_divide_iff)
  define lp where "lp = bitLength (nat p)"
  define lq where "lq = bitLength (nat q)"
  define k where "k = int lp - int lq"
  have P: "rat_of_int p < 2 ^ lp" "2 ^ lp \<le> 2 * rat_of_int p"
    using bitLength_rat [OF p] by (simp_all add: lp_def)
  have Q: "rat_of_int q < 2 ^ lq" "2 ^ lq \<le> 2 * rat_of_int q"
    using bitLength_rat [OF q] by (simp_all add: lq_def)
  have kk: "(2::rat) powi k = 2 ^ lp / 2 ^ lq"
    by (simp add: k_def power_int_diff)
  have q0: "0 < rat_of_int q" using q by simp
  have p0: "0 < rat_of_int p" using p by simp
  have up: "a < 2 powi (k + 1)"
  proof -
    have "a * 2 ^ lq \<le> a * (2 * rat_of_int q)"
      using Q(2) assms by (simp add: mult_left_mono)
    also have "\<dots> = 2 * rat_of_int p"
      using q0 by (simp add: a)
    also have "\<dots> < 2 * 2 ^ lp"
      using P(1) by simp
    finally have "a * 2 ^ lq < 2 * 2 ^ lp" .
    then have "a < 2 * 2 ^ lp / 2 ^ lq"
      by (simp add: pos_less_divide_eq)
    then show ?thesis
      by (simp add: power_int_add kk mult.commute)
  qed
  have lo: "2 powi (k - 1) \<le> a"
  proof -
    have "2 ^ lp * rat_of_int q \<le> 2 * rat_of_int p * rat_of_int q"
      using P(2) q0 by (simp add: mult_right_mono)
    also have "\<dots> \<le> 2 * rat_of_int p * 2 ^ lq"
      using Q(1) p0 by (simp add: mult_left_mono)
    finally have "2 ^ lp * rat_of_int q \<le> 2 * rat_of_int p * 2 ^ lq" .
    then have "2 ^ lp / 2 ^ lq \<le> 2 * (rat_of_int p / rat_of_int q)"
      using q0 by (simp add: field_simps)
    then have "2 powi k / 2 \<le> a"
      by (simp add: kk a)
    then show ?thesis
      by (simp add: power_int_diff)
  qed
  have b: "binade a = (if 2 powi k \<le> a then k else k - 1)"
    by (simp add: binade_def pq k_def lp_def lq_def Let_def)
  show ?thesis
  proof (cases "2 powi k \<le> a")
    case True
    then show ?thesis using b up by simp
  next
    case False
    then show ?thesis using b lo by simp
  qed
qed


lemma toDouble_nonzero:
  assumes "q \<noteq> 0"
    and "e = max (binade \<bar>q\<bar>) (- 1022)"
    and "r = rat_of_int (roundHalfEven (\<bar>q\<bar> / 2 powi (e - 52))) * 2 powi (e - 52)"
  shows "toDouble q = (if overflowThreshold \<le> r then (if 0 < q then PosInf else NegInf)
                       else Fin (if 0 < q then r else - r))"
  using assms by (simp add: toDouble_def Let_def)

lemma ulp_grid:
  assumes "- 1022 \<le> e"
  shows "(2::rat) powi (e - 52) = of_int (2 ^ nat (e + 1022)) * 2 powi (- 1074)"
proof -
  have "(2::rat) powi (e - 52) = 2 powi ((e + 1022) + (- 1074))"
    by simp
  also have "\<dots> = 2 powi (e + 1022) * 2 powi (- 1074)"
    by (rule power_int_add) simp
  also have "(2::rat) powi (e + 1022) = 2 ^ nat (e + 1022)"
    using assms by (simp add: power_int_def)
  finally show ?thesis by simp
qed

lemma toDouble_grid:
  assumes "toDouble q = Fin r"
  shows "onGrid r"
proof (cases "q = 0")
  case True
  then have "r = 0" using assms by (simp add: toDouble_def)
  then show ?thesis
    unfolding onGrid_def by (intro exI [of _ 0]) simp
next
  case False
  define e where "e = max (binade \<bar>q\<bar>) (- 1022)"
  define n where "n = roundHalfEven (\<bar>q\<bar> / 2 powi (e - 52))"
  define x where "x = rat_of_int n * 2 powi (e - 52)"
  have e: "- 1022 \<le> e" by (simp add: e_def)
  have t: "toDouble q = (if overflowThreshold \<le> x then (if 0 < q then PosInf else NegInf)
                       else Fin (if 0 < q then x else - x))"
    using False e_def by (rule toDouble_nonzero) (simp add: x_def n_def)
  have r: "r = x \<or> r = - x"
    using assms t by (auto split: if_splits)
  have g: "x = of_int (n * 2 ^ nat (e + 1022)) * 2 powi (- 1074)"
    unfolding x_def by (simp only: ulp_grid [OF e] of_int_mult mult.assoc)
  from r show ?thesis
  proof
    assume "r = x"
    then show ?thesis
      unfolding onGrid_def using g by (intro exI [of _ "n * 2 ^ nat (e + 1022)"]) simp
  next
    assume "r = - x"
    then have "r = of_int (- (n * 2 ^ nat (e + 1022))) * 2 powi (- 1074)"
      using g by (simp only: of_int_minus mult_minus_left)
    then show ?thesis
      unfolding onGrid_def by (intro exI [of _ "- (n * 2 ^ nat (e + 1022))"])
  qed
qed

lemma ulp_le:
  assumes "onGrid a" and "0 < a" and "e = max (binade a) (- 1022)"
  shows "2 powi (e - 52) \<le> a"
proof (cases "- 1022 \<le> binade a")
  case True
  then have "e = binade a" using assms(3) by simp
  moreover have "(2::rat) powi (binade a - 52) \<le> 2 powi (binade a)"
    by (rule power_int_increasing) simp_all
  ultimately show ?thesis
    using binade_bounds [OF assms(2)] by simp
next
  case False
  then have e: "e - 52 = - 1074" using assms(3) by simp
  obtain m :: int where m: "a = of_int m * 2 powi (- 1074)"
    using assms(1) unfolding onGrid_def by blast
  have p: "(0::rat) < 2 powi (- 1074)" by simp
  have "0 < rat_of_int m"
    using assms(2) p unfolding m by (simp only: zero_less_mult_iff) auto
  then have "1 \<le> m" by simp
  then have "(1::rat) \<le> of_int m" by simp
  then have "1 * (2::rat) powi (- 1074) \<le> of_int m * 2 powi (- 1074)"
    using p by (intro mult_right_mono) simp_all
  then show ?thesis
    unfolding e m by simp
qed

lemma round_positive:
  assumes "0 < u" and "u \<le> a"
  shows "0 < rat_of_int (roundHalfEven (a / u)) * u"
proof -
  have "1 \<le> a / u" using assms by (simp add: pos_le_divide_eq)
  then have "1 \<le> \<lfloor>a / u\<rfloor>" by simp
  then have "1 \<le> roundHalfEven (a / u)"
    using roundHalfEven_ge [of "a / u"] by linarith
  then have "0 < rat_of_int (roundHalfEven (a / u))" by simp
  then show ?thesis using assms(1) by simp
qed

lemma toDouble_positive:
  assumes "onGrid d"
  shows "js_positive (toDouble d) = (0 < d)"
proof (cases "d = 0")
  case True
  then show ?thesis by (simp add: toDouble_def)
next
  case False
  define e where "e = max (binade \<bar>d\<bar>) (- 1022)"
  define x where "x = rat_of_int (roundHalfEven (\<bar>d\<bar> / 2 powi (e - 52))) * 2 powi (e - 52)"
  have t: "toDouble d = (if overflowThreshold \<le> x then (if 0 < d then PosInf else NegInf)
                       else Fin (if 0 < d then x else - x))"
    using False e_def x_def by (rule toDouble_nonzero)
  have "onGrid \<bar>d\<bar>"
  proof -
    obtain m :: int where "d = of_int m * 2 powi (- 1074)"
      using assms unfolding onGrid_def by blast
    then have "\<bar>d\<bar> = of_int \<bar>m\<bar> * 2 powi (- 1074)"
      by (simp add: abs_mult)
    then show ?thesis unfolding onGrid_def by blast
  qed
  moreover have "0 < \<bar>d\<bar>" using False by simp
  ultimately have "2 powi (e - 52) \<le> \<bar>d\<bar>"
    using e_def by (rule ulp_le)
  then have "0 < x"
    unfolding x_def by (intro round_positive) simp_all
  then show ?thesis
    using t False by (auto split: if_splits)
qed


lemma toDouble_int:
  assumes "\<bar>n\<bar> < 2 ^ 53"
  shows "toDouble (of_int n) = Fin (of_int n)"
proof (cases "n = 0")
  case True
  then show ?thesis by (simp add: toDouble_def)
next
  case False
  define a where "a = \<bar>rat_of_int n\<bar>"
  define e where "e = max (binade a) (- 1022)"
  define x where "x = rat_of_int (roundHalfEven (a / 2 powi (e - 52))) * 2 powi (e - 52)"
  have a1: "1 \<le> a"
  proof -
    have "1 \<le> \<bar>n\<bar>" using False by simp
    then have "rat_of_int 1 \<le> rat_of_int \<bar>n\<bar>" by (simp only: of_int_le_iff)
    then show ?thesis by (simp add: a_def)
  qed
  have a53: "a < 2 powi 53"
  proof -
    have "rat_of_int \<bar>n\<bar> < rat_of_int (2 ^ 53)"
      using assms by (simp only: of_int_less_iff)
    then show ?thesis by (simp add: a_def)
  qed
  have a0: "0 < a" using a1 by simp
  note b = binade_bounds [OF a0]
  have "(2::rat) powi binade a < 2 powi 53"
    using b a53 by simp
  then have hi: "binade a < 53"
    by (rule power_int_le_imp_less_exp [rotated]) simp_all
  have lo: "0 \<le> binade a"
  proof (rule ccontr)
    assume "\<not> 0 \<le> binade a"
    then have "binade a + 1 \<le> 0" by simp
    then have "(2::rat) powi (binade a + 1) \<le> 2 powi 0"
      by (rule power_int_increasing) simp
    then show False using b a1 by simp
  qed
  have e: "e = binade a" "0 \<le> e" "e \<le> 52"
    using hi lo by (simp_all add: e_def)
  have u: "(2::rat) powi (e - 52) = 1 / 2 ^ nat (52 - e)"
    using e by (simp add: power_int_def field_simps)
  have "a / 2 powi (e - 52) = rat_of_int (\<bar>n\<bar> * 2 ^ nat (52 - e))"
    by (simp add: u a_def)
  then have "roundHalfEven (a / 2 powi (e - 52)) = \<bar>n\<bar> * 2 ^ nat (52 - e)"
    by (simp only: roundHalfEven_int)
  then have x: "x = a"
    by (simp add: x_def u a_def)
  have o: "\<not> overflowThreshold \<le> a"
  proof -
    have "(2::rat) powi 53 \<le> 2 powi 1024"
      by (rule power_int_increasing) simp_all
    then show ?thesis
      using a53 by (simp add: overflowThreshold_def)
  qed
  have "rat_of_int n \<noteq> 0" using False by simp
  then have "toDouble (of_int n)
    = (if overflowThreshold \<le> x then (if 0 < rat_of_int n then PosInf else NegInf)
       else Fin (if 0 < rat_of_int n then x else - x))"
    using e_def [unfolded a_def] x_def [unfolded a_def] by (rule toDouble_nonzero)
  then show ?thesis
    using o x by (auto simp: a_def)
qed

lemma toDouble_numeral [simp]:
  "numeral k < (2::int) ^ 53 \<Longrightarrow> toDouble (numeral k) = Fin (numeral k)"
  "numeral k < (2::int) ^ 53 \<Longrightarrow> toDouble (- numeral k) = Fin (- numeral k)"
  "toDouble 0 = Fin 0"
  "toDouble 1 = Fin 1"
  "toDouble (- 1) = Fin (- 1)"
  using toDouble_int [of "numeral k"] toDouble_int [of "- numeral k"] toDouble_int [of 1]
    toDouble_int [of "- 1"]
  by (simp_all add: toDouble_def)

lemma binade_unique:
  assumes "2 powi k \<le> a" and "a < 2 powi (k + 1)"
  shows "binade a = k"
proof -
  have "(0::rat) < 2 powi k" by simp
  then have p: "0 < a" using assms(1) by linarith
  note b = binade_bounds [OF p]
  have "(2::rat) powi k < 2 powi (binade a + 1)"
    using assms(1) b by linarith
  then have 1: "k < binade a + 1"
    using power_int_le_imp_less_exp [rotated, of 2 k "binade a + 1"]
    by (metis linorder_not_less one_less_numeral_iff power_int_increasing semiring_norm(76) order_less_imp_le)
  have "(2::rat) powi (binade a) < 2 powi (k + 1)"
    using assms(2) b by linarith
  then have 2: "binade a < k + 1"
    by (metis linorder_not_less one_less_numeral_iff power_int_increasing semiring_norm(76) order_less_imp_le)
  show ?thesis using 1 2 by simp
qed

lemma toDouble_overflow:
  assumes "2 powi 1024 \<le> q"
  shows "toDouble q = PosInf"
proof -
  have z: "(0::rat) < 2 powi 1024" by simp
  have p: "0 < q" using assms z by linarith
  note b = binade_bounds [OF p]
  have "(2::rat) powi 1024 < 2 powi (binade q + 1)"
    using assms b by linarith
  then have "1024 < binade q + 1"
    by (metis linorder_not_less one_less_numeral_iff power_int_increasing semiring_norm(76) order_less_imp_le)
  then have e: "1024 \<le> binade q" by simp
  define u :: rat where "u = 2 powi (binade q - 52)"
  have u: "0 < u" by (simp add: u_def)
  have "(2::rat) powi (binade q) = 2 powi (52 + (binade q - 52))" by simp
  also have "\<dots> = 2 powi 52 * u"
    unfolding u_def by (rule power_int_add) simp
  finally have s: "(2::rat) powi (binade q) = 2 powi 52 * u" .
  have "2 powi 52 * u \<le> q" using b s by simp
  then have "2 powi 52 \<le> q / u" using u by (simp add: pos_le_divide_eq)
  then have "rat_of_int (2 ^ 52) \<le> q / u" by simp
  then have "2 ^ 52 \<le> \<lfloor>q / u\<rfloor>" by (simp only: le_floor_iff)
  then have "2 ^ 52 \<le> roundHalfEven (q / u)"
    using roundHalfEven_ge [of "q / u"] by linarith
  then have "rat_of_int (2 ^ 52) \<le> rat_of_int (roundHalfEven (q / u))"
    by (simp only: of_int_le_iff)
  then have "rat_of_int (2 ^ 52) * u \<le> rat_of_int (roundHalfEven (q / u)) * u"
    using u by (simp only: mult_le_cancel_right_pos)
  then have "2 powi (binade q) \<le> rat_of_int (roundHalfEven (q / u)) * u"
    using s by simp
  moreover have "(2::rat) powi 1024 \<le> 2 powi (binade q)"
    using e by (intro power_int_increasing) simp_all
  ultimately have o: "overflowThreshold \<le> rat_of_int (roundHalfEven (q / u)) * u"
    unfolding overflowThreshold_def by linarith
  have m: "binade q = max (binade \<bar>q\<bar>) (- 1022)"
    using e p by simp
  have r: "rat_of_int (roundHalfEven (q / u)) * u
        = rat_of_int (roundHalfEven (\<bar>q\<bar> / 2 powi (binade q - 52))) * 2 powi (binade q - 52)"
    using p by (simp add: u_def)
  have n: "q \<noteq> 0" using p by simp
  show ?thesis
    using toDouble_nonzero [OF n m r] o p by simp
qed


lemma below_overflow:
  assumes "r < 2 powi k" and "k \<le> 1024"
  shows "\<not> overflowThreshold \<le> r"
proof -
  have "(2::rat) powi k \<le> 2 powi 1024"
    using assms(2) by (intro power_int_increasing) simp_all
  then show ?thesis
    using assms(1) unfolding overflowThreshold_def by linarith
qed

lemma toDouble_tie: "toDouble 9007199254740993 = Fin 9007199254740992"
proof -
  have b: "binade 9007199254740993 = 53"
    by (rule binade_unique) simp_all
  have e: "(53::int) = max (binade \<bar>9007199254740993\<bar>) (- 1022)"
    by (simp add: b)
  have f: "\<lfloor>9007199254740993 / 2 :: rat\<rfloor> = 4503599627370496"
    by (simp add: floor_eq_iff)
  have h: "roundHalfEven (9007199254740993 / 2) = 4503599627370496"
    by (simp add: roundHalfEven_def Let_def f)
  have r: "(9007199254740992::rat)
        = rat_of_int (roundHalfEven (\<bar>9007199254740993\<bar> / 2 powi (53 - 52))) * 2 powi (53 - 52)"
    by (simp add: h)
  have o: "\<not> overflowThreshold \<le> 9007199254740992"
    by (rule below_overflow [of _ 54]) simp_all
  have n: "(9007199254740993::rat) \<noteq> 0" by simp
  show ?thesis
    using toDouble_nonzero [OF n e r] o by simp
qed

lemma toDouble_even: "toDouble 9007199254740992 = Fin 9007199254740992"
proof -
  have b: "binade 9007199254740992 = 53"
    by (rule binade_unique) simp_all
  have e: "(53::int) = max (binade \<bar>9007199254740992\<bar>) (- 1022)"
    by (simp add: b)
  have h: "roundHalfEven 4503599627370496 = 4503599627370496"
    by (simp add: roundHalfEven_def)
  have r: "(9007199254740992::rat)
        = rat_of_int (roundHalfEven (\<bar>9007199254740992\<bar> / 2 powi (53 - 52))) * 2 powi (53 - 52)"
    by (simp add: h)
  have o: "\<not> overflowThreshold \<le> 9007199254740992"
    by (rule below_overflow [of _ 54]) simp_all
  have n: "(9007199254740992::rat) \<noteq> 0" by simp
  show ?thesis
    using toDouble_nonzero [OF n e r] o by simp
qed


section \<open>The filter predicate\<close>

lemma trim_Nil: "trim [] = []"
  by (simp add: trim_def)

lemma facetIsSet_guard:
  "(truthy (fs k) \<and> truthy (trim (fs k))) = facetIsSet fs k"
  by (auto simp: truthy_def facetIsSet_def trim_Nil)

lemma facetOrder_complete: "distinct facetOrder \<and> set facetOrder = UNIV"
proof -
  have "k \<in> set facetOrder" for k
    by (cases k) (simp_all add: facetOrder_def)
  then show ?thesis
    by (auto simp: facetOrder_def)
qed

text \<open>
  C1. For every filter state the predicate handed to the query facade is the list of the
  specification's clauses joined by \<open>' AND '\<close>: the fixed record-type clause and exactly
  one equality clause for each set facet (each facet occurs once in the facet order, and
  a facet whose value is blank contributes nothing), the string facets in double quotes
  and the year without them.
\<close>

theorem buildFilterString_spec:
  "buildFilterString fs = join '' AND '' (specClauses fs)
   \<and> length (specClauses fs) = 1 + card {k. facetIsSet fs k}
   \<and> equalityClause fs InfraYear_key = ''FundingYear = '' @ trim (fs InfraYear_key)
   \<and> equalityClause fs Region_key = ''Region = '' @ quoted (trim (fs Region_key))"
proof -
  have a: "buildFilterString fs = join '' AND '' (specClauses fs)"
    unfolding buildFilterString_def Let_def facetIsSet_guard
    by (simp add: specClauses_def facetOrder_def typeClause_def equalityClause_def quoted_def)
  have d: "distinct (filter (facetIsSet fs) facetOrder)"
    using facetOrder_complete by simp
  have s: "set (filter (facetIsSet fs) facetOrder) = {k. facetIsSet fs k}"
    using facetOrder_complete by auto
  have b: "length (specClauses fs) = 1 + card {k. facetIsSet fs k}"
    using distinct_card [OF d] s by (simp add: specClauses_def)
  show ?thesis
    using a b by (simp add: equalityClause_def)
qed

section \<open>Region resets Province\<close>

text \<open>
  C2. In every filter state, and so after every sequence of updates, setting Region to
  any value leaves Province unset whatever it was before; the changed facet holds the new
  value; and setting a facet other than Region leaves every other facet as it was. This
  holds for the handler of the table page and for the handler of the dashboard page.
\<close>

theorem handleFilterChange_region_province:
  "handleFilterChange fs Region_key v Province_key = []
   \<and> handleFilterChange (applyChanges initialFilters changes) Region_key v Province_key = []
   \<and> handleFilterChange fs k v k = v
   \<and> (k \<noteq> Region_key \<longrightarrow> k' \<noteq> k \<longrightarrow> handleFilterChange fs k v k' = fs k')
   \<and> filters (handleFilterChange_index s Region_key v) Province_key = []
   \<and> filters (handleFilterChange_index s k v) k = v
   \<and> (k \<noteq> Region_key \<longrightarrow> k' \<noteq> k \<longrightarrow> filters (handleFilterChange_index s k v) k' = filters s k')"
  by (simp add: handleFilterChange_def handleFilterChange_index_def Let_def)

theorem handleFilterChange_region_province_witness:
  "handleFilterChange (initialFilters(Province_key := ''Cebu'')) Region_key ''Region VII'' Province_key = []
   \<and> TypeofWork_key \<noteq> Region_key \<and> Province_key \<noteq> TypeofWork_key
   \<and> handleFilterChange (initialFilters(Province_key := ''Cebu'')) TypeofWork_key ''Dike'' Province_key
       = ''Cebu''
   \<and> filters (handleFilterChange_index (initialDashboard\<lparr>filters := initialFilters(Province_key := ''Cebu'')\<rparr>)
         TypeofWork_key ''Dike'') Province_key = ''Cebu''"
  using handleFilterChange_region_province
    [of "initialFilters(Province_key := ''Cebu'')" "''Region VII''" "[]" TypeofWork_key Province_key
        "initialDashboard\<lparr>filters := initialFilters(Province_key := ''Cebu'')\<rparr>"]
    handleFilterChange_region_province
    [of "initialFilters(Province_key := ''Cebu'')" "''Dike''" "[]" TypeofWork_key Province_key
        "initialDashboard\<lparr>filters := initialFilters(Province_key := ''Cebu'')\<rparr>"]
  by (simp add: initialFilters_def)

section \<open>Statistics without a filter\<close>

lemma checkIfFiltersApplied_unset:
  "term = [] \<Longrightarrow> (\<And>k. fs k = []) \<Longrightarrow> \<not> checkIfFiltersApplied fs term"
  by (simp add: checkIfFiltersApplied_def truthy_def list_ex_iff)

lemma filtersApplied_interact:
  "filtersApplied (interact s i) = checkIfFiltersApplied (filters (interact s i)) (searchTerm (interact s i))"
  by (cases i) (simp_all add: handleFilterChange_index_def handleSearchChange_def Let_def)

lemma filtersApplied_dashboardAfter:
  "filtersApplied (dashboardAfter is)
   = checkIfFiltersApplied (filters (dashboardAfter is)) (searchTerm (dashboardAfter is))"
proof (cases "is" rule: rev_cases)
  case Nil
  then show ?thesis
    by (simp add: dashboardAfter_def initialDashboard_def initialFilters_def
        checkIfFiltersApplied_def truthy_def facetOrder_def)
next
  case (snoc js i)
  then show ?thesis
    by (simp add: dashboardAfter_def filtersApplied_interact)
qed

text \<open>
  C4. After any sequence of interactions, when the search string is empty and every facet
  is unset, the statistics block shows total projects 9,855, total contract cost
  547,603,497,105 and unique contractors 2,409, whatever the query facade returned: the
  values are the built-in snapshot, not computed from hits.
\<close>

theorem statisticsPanel_no_filter:
  assumes "s = dashboardAfter is"
    and "searchTerm s = []"
    and "\<And>k. filters s k = []"
  shows "statisticsPanel s hits nbHits
         = \<lparr>totalProjects = 9855, totalCost = Fin 547603497105, uniqueContractors = 2409\<rparr>
       \<and> statisticsPanel s hits nbHits = defaultStats"
proof -
  have "\<not> filtersApplied s"
    using assms filtersApplied_dashboardAfter [of "is"] checkIfFiltersApplied_unset by simp
  then show ?thesis
    by (simp add: statisticsPanel_def defaultStats_def)
qed

theorem statisticsPanel_no_filter_witness:
  "statisticsPanel (dashboardAfter [FilterChange Region_key ''Region I'', SearchChange ''dike'',
      FilterChange Region_key [], SearchChange []]) contractorSample (Some 5)
   = \<lparr>totalProjects = 9855, totalCost = Fin 547603497105, uniqueContractors = 2409\<rparr>"
proof -
  let ?s = "dashboardAfter [FilterChange Region_key ''Region I'', SearchChange ''dike'',
      FilterChange Region_key [], SearchChange []]"
  have a: "searchTerm ?s = []"
    by (simp add: dashboardAfter_def handleSearchChange_def handleFilterChange_index_def Let_def)
  have b: "filters ?s k = []" for k
    by (simp add: dashboardAfter_def handleSearchChange_def handleFilterChange_index_def Let_def
        initialDashboard_def initialFilters_def)
  show ?thesis
    using statisticsPanel_no_filter [OF refl a b] by simp
qed

section \<open>Unique contractors\<close>

lemma uniqueContractors_table_card:
  "uniqueContractors_table hits
   = card {c. c \<in> Contractor ` set hits \<and> nonBlank c}"
proof -
  have "set (map Contractor (filter (\<lambda>h. nonBlank (Contractor h)) hits))
        = {c. c \<in> Contractor ` set hits \<and> nonBlank c}"
    by auto
  then show ?thesis
    by (simp add: uniqueContractors_table_def setSize_def length_remdups_card_conv)
qed

text \<open>
  C5. On the sample of contractor names \<open>["A", "", " ", "B", "A"]\<close> the table view counts
  2 unique contractors, but the dashboard statistics count 3: \<open>filter(Boolean)\<close> drops
  the empty name and keeps the name that is one space.
\<close>

theorem uniqueContractors_sample:
  "uniqueContractors (DashboardStatistics contractorSample (Some 5)) = 3
   \<and> uniqueContractors_table contractorSample = 2"
  by (simp add: DashboardStatistics_def totalHitsOf_def defaultStats_def contractorSample_def
      setSize_def Boolean_def truthy_def uniqueContractors_table_def nonBlank_def trim_def
      isWhiteSpace_def noHit_def)

section \<open>Properties of the array sort\<close>

lemma mset_insertSorted: "mset (insertSorted cmp x ys) = add_mset x (mset ys)"
  by (induction ys) simp_all

lemma mset_arraySort: "mset (arraySort cmp xs) = mset xs"
  by (induction xs) (simp_all add: arraySort_def mset_insertSorted)

lemma set_arraySort: "set (arraySort cmp xs) = set xs"
  using mset_arraySort [of cmp xs] by (metis set_mset_mset)

lemma length_arraySort: "length (arraySort cmp xs) = length xs"
  using mset_arraySort [of cmp xs] by (metis size_mset)

lemma arraySort_Cons: "arraySort cmp (x # xs) = insertSorted cmp x (arraySort cmp xs)"
  by (simp add: arraySort_def)

lemma insertSorted_ascending:
  fixes key :: "'a \<Rightarrow> 'k::linorder"
  assumes "\<And>y. y \<in> set ys \<Longrightarrow> js_positive (cmp x y) = (key y < key x)"
  shows "insertSorted cmp x ys = insort_key key x ys"
  using assms by (induction ys) (auto simp: not_less)

lemma arraySort_ascending:
  fixes key :: "'a \<Rightarrow> 'k::linorder"
  assumes "\<And>x y. x \<in> set xs \<Longrightarrow> y \<in> set xs \<Longrightarrow> js_positive (cmp x y) = (key y < key x)"
  shows "arraySort cmp xs = sort_key key xs"
  using assms
proof (induction xs)
  case Nil
  then show ?case by (simp add: arraySort_def)
next
  case (Cons x xs)
  have ih: "arraySort cmp xs = sort_key key xs"
    using Cons by simp
  have "insertSorted cmp x (sort_key key xs) = insort_key key x (sort_key key xs)"
    by (rule insertSorted_ascending) (simp add: Cons.prems)
  then show ?case
    by (simp add: arraySort_Cons ih)
qed

lemma filter_insertSorted_descending:
  fixes key :: "'a \<Rightarrow> 'k::linorder"
  assumes "\<And>y. y \<in> set ys \<Longrightarrow> js_positive (cmp x y) = (key x < key y)"
  shows "filter (\<lambda>z. c = key z) (insertSorted cmp x ys)
         = (if c = key x then x # filter (\<lambda>z. c = key z) ys else filter (\<lambda>z. c = key z) ys)"
  using assms by (induction ys) auto

lemma set_insertSorted: "set (insertSorted cmp x ys) = insert x (set ys)"
  using mset_insertSorted [of cmp x ys] by (metis set_mset_mset set_mset_add_mset_insert)

lemma sorted_insertSorted_descending:
  fixes key :: "'a \<Rightarrow> 'k::linorder"
  assumes "\<And>y. y \<in> set ys \<Longrightarrow> js_positive (cmp x y) = (key x < key y)"
    and "sorted_wrt (\<lambda>a b. key b \<le> key a) ys"
  shows "sorted_wrt (\<lambda>a b. key b \<le> key a) (insertSorted cmp x ys)"
  using assms
proof (induction ys)
  case Nil
  then show ?case by simp
next
  case (Cons y ys)
  show ?case
  proof (cases "key x < key y")
    case True
    then have "insertSorted cmp x (y # ys) = y # insertSorted cmp x ys"
      using Cons.prems(1) by simp
    moreover have "sorted_wrt (\<lambda>a b. key b \<le> key a) (insertSorted cmp x ys)"
      using Cons by simp
    ultimately show ?thesis
      using Cons.prems(2) True by (auto simp: set_insertSorted)
  next
    case False
    then have "insertSorted cmp x (y # ys) = x # y # ys"
      using Cons.prems(1) by simp
    then show ?thesis
      using Cons.prems(2) False by (auto simp: not_less intro: order_trans)
  qed
qed

lemma arraySort_descending_props:
  fixes key :: "'a \<Rightarrow> 'k::linorder"
  assumes "\<And>x y. x \<in> set xs \<Longrightarrow> y \<in> set xs \<Longrightarrow> js_positive (cmp x y) = (key x < key y)"
  shows "sorted_wrt (\<lambda>a b. key b \<le> key a) (arraySort cmp xs)
         \<and> (\<forall>c. filter (\<lambda>z. c = key z) (arraySort cmp xs) = filter (\<lambda>z. c = key z) xs)"
  using assms
proof (induction xs)
  case Nil
  then show ?case by (simp add: arraySort_def)
next
  case (Cons x xs)
  have ih: "sorted_wrt (\<lambda>a b. key b \<le> key a) (arraySort cmp xs)"
    "\<And>c. filter (\<lambda>z. c = key z) (arraySort cmp xs) = filter (\<lambda>z. c = key z) xs"
    using Cons by simp_all
  have c: "js_positive (cmp x y) = (key x < key y)" if "y \<in> set (arraySort cmp xs)" for y
    using that Cons.prems by (simp add: set_arraySort)
  show ?case
    using sorted_insertSorted_descending [of "arraySort cmp xs" cmp x key, OF c ih(1)]
      filter_insertSorted_descending [of "arraySort cmp xs" cmp x key, OF c] ih(2)
    by (simp add: arraySort_Cons)
qed

lemma arraySort_descending:
  fixes key :: "'a \<Rightarrow> 'k::linorder"
  assumes "\<And>x y. x \<in> set xs \<Longrightarrow> y \<in> set xs \<Longrightarrow> js_positive (cmp x y) = (key x < key y)"
  shows "arraySort cmp xs = rev (sort_key key (rev xs))"
proof -
  note p = arraySort_descending_props [of xs cmp key, OF assms]
  have "sort_key key (rev xs) = rev (arraySort cmp xs)"
  proof (rule properties_for_sort_key)
    show "mset (rev (arraySort cmp xs)) = mset (rev xs)"
      by (simp add: mset_arraySort)
    show "filter (\<lambda>x. key k = key x) (rev (arraySort cmp xs)) = filter (\<lambda>x. key k = key x) (rev xs)" for k
      using p by (simp add: rev_filter [symmetric])
    have "sorted_wrt (\<lambda>a b. key a \<le> key b) (rev (arraySort cmp xs))"
      using p by (simp add: sorted_wrt_rev)
    then show "sorted (map key (rev (arraySort cmp xs)))"
      by (simp add: sorted_map)
  qed
  then show ?thesis by simp
qed

lemma sort_key_rev_distinct:
  fixes key :: "'a \<Rightarrow> 'k::linorder"
  assumes "distinct (map key xs)"
  shows "sort_key key (rev xs) = sort_key key xs"
proof (rule properties_for_sort_key)
  show "mset (sort_key key xs) = mset (rev xs)" by simp
  show "sorted (map key (sort_key key xs))" by simp
  have one: "filter (\<lambda>x. key k = key x) zs = [k]"
    if "distinct (map key zs)" "k \<in> set zs" for zs :: "'a list" and k
    using that by (induction zs) (auto simp: filter_empty_conv image_iff)
  have d: "distinct (map key (sort_key key xs))" "distinct (map key (rev xs))"
    using assms by (simp_all add: distinct_map rev_map [symmetric] inj_on_def)
  show "filter (\<lambda>x. key k = key x) (sort_key key xs) = filter (\<lambda>x. key k = key x) (rev xs)"
    if "k \<in> set (sort_key key xs)" for k
    using one [OF d(1) that] one [OF d(2), of k] that by simp
qed

section \<open>Sorting the table by cost\<close>

lemmas parse_defs = parseFloat_def trimStart_def scanDecimal_def scanUnsigned_def
  scanExponent_def isDigit_def isWhiteSpace_def digitsValue_def digitValue_def pow10_def

lemma onGrid_diff:
  assumes "onGrid a" and "onGrid b"
  shows "onGrid (a - b)"
proof -
  obtain m k :: int where "a = of_int m * 2 powi (- 1074)" "b = of_int k * 2 powi (- 1074)"
    using assms unfolding onGrid_def by blast
  then have "a - b = of_int (m - k) * 2 powi (- 1074)"
    by (simp add: left_diff_distrib)
  then show ?thesis
    unfolding onGrid_def by blast
qed

lemma onGrid_of_int: "onGrid (of_int n)"
proof -
  have "(2::rat) powi (- 1074) * 2 powi 1074 = 2 powi (- 1074 + 1074)"
    by (rule power_int_add [symmetric]) simp
  then have "(2::rat) powi 1074 * 2 powi (- 1074) = 1"
    by (simp add: mult.commute)
  then have "rat_of_int n = of_int (n * 2 ^ 1074) * 2 powi (- 1074)"
    by (simp add: mult.assoc)
  then show ?thesis
    unfolding onGrid_def by blast
qed

lemma onGrid_minus: "onGrid a \<Longrightarrow> onGrid (- a)"
  using onGrid_diff [of 0 a] onGrid_of_int [of 0] by simp

lemma js_positive_sub:
  assumes "isFin x" and "isFin y" and "onGrid (finValue x)" and "onGrid (finValue y)"
  shows "js_positive (js_sub x y) = (finValue y < finValue x)"
proof -
  obtain a b where x: "x = Fin a" and y: "y = Fin b"
    using assms(1,2) by (cases x; cases y) simp_all
  have "onGrid (a - b)"
    using assms(3,4) x y by (simp add: onGrid_diff)
  then have "js_positive (toDouble (a - b)) = (0 < a - b)"
    by (rule toDouble_positive)
  then show ?thesis
    by (simp add: x y js_sub_def)
qed

lemma scanUnsigned_grid:
  assumes "scanUnsigned u = Some (v, r)" and "isFin v"
  shows "onGrid (finValue v)"
proof -
  obtain q where q: "v = toDouble q"
    using assms by (auto simp: scanUnsigned_def Let_def split: if_splits prod.splits)
  obtain x where x: "v = Fin x"
    using assms(2) by (cases v) simp_all
  have "toDouble q = Fin x"
    using q x by simp
  then have "onGrid x"
    by (rule toDouble_grid)
  then show ?thesis
    by (simp add: x)
qed

lemma parseFloat_grid:
  assumes "isFin (parseFloat s)"
  shows "onGrid (finValue (parseFloat s))"
proof (cases "scanDecimal (trimStart s)")
  case None
  then show ?thesis using assms by (simp add: parseFloat_def)
next
  case (Some vr)
  obtain v r where vr: "vr = (v, r)" by (cases vr)
  have p: "parseFloat s = v"
    using Some vr by (simp add: parseFloat_def)
  have "\<exists>w r'. scanUnsigned r' = Some (w, r) \<and> (v = w \<or> v = js_neg w)"
    using Some vr by (auto simp: scanDecimal_def split: list.splits if_splits)
  then obtain w r' where w: "scanUnsigned r' = Some (w, r)" and c: "v = w \<or> v = js_neg w"
    by blast
  have f: "isFin w"
    using assms p c by (cases w) auto
  note g = scanUnsigned_grid [OF w f]
  from c show ?thesis
  proof
    assume "v = w"
    then show ?thesis using g p by simp
  next
    assume "v = js_neg w"
    then have "finValue v = - finValue w"
      using f by (cases w) simp_all
    then show ?thesis
      using onGrid_minus [OF g] p by simp
  qed
qed

lemma costOf_grid: "isFin (costOf h) \<Longrightarrow> onGrid (finValue (costOf h))"
  unfolding costOf_def by (rule parseFloat_grid)

lemma compareHits_cost_asc:
  "isFin (costOf a) \<Longrightarrow> isFin (costOf b) \<Longrightarrow>
   js_positive (compareHits ContractCost_col asc a b) = (costValue b < costValue a)"
  using js_positive_sub [of "costOf a" "costOf b"] costOf_grid [of a] costOf_grid [of b]
  by (simp add: compareHits_def costOf_def costValue_def Let_def)

lemma compareHits_cost_desc:
  "isFin (costOf a) \<Longrightarrow> isFin (costOf b) \<Longrightarrow>
   js_positive (compareHits ContractCost_col desc a b) = (costValue a < costValue b)"
  using js_positive_sub [of "costOf b" "costOf a"] costOf_grid [of a] costOf_grid [of b]
  by (simp add: compareHits_def costOf_def costValue_def Let_def)

lemma costAscending_simps:
  "sortField costAscending = ContractCost_col" "sortDirection costAscending = asc"
  "currentPage costAscending = 0"
  by (simp_all add: costAscending_def handleSort_def initialTable_def)

lemma costDescending_simps:
  "sortField costDescending = ContractCost_col" "sortDirection costDescending = desc"
  "currentPage costDescending = 0"
  by (simp_all add: costDescending_def handleSort_def costAscending_simps)

lemma sortedHits_costAscending:
  assumes "list_all (\<lambda>h. isFin (costOf h)) hits"
  shows "sortedHits costAscending hits = sort_key costValue hits"
  unfolding sortedHits_def costAscending_simps
  by (rule arraySort_ascending) (use assms in \<open>simp add: list_all_iff compareHits_cost_asc\<close>)

lemma sortedHits_costDescending:
  assumes "list_all (\<lambda>h. isFin (costOf h)) hits"
  shows "sortedHits costDescending hits = rev (sort_key costValue (rev hits))"
  unfolding sortedHits_def costDescending_simps
  by (rule arraySort_descending) (use assms in \<open>simp add: list_all_iff compareHits_cost_desc\<close>)

text \<open>
  Two numerals that differ in the last digit can parse to the same double, and a numeral
  beyond the largest double parses to \<open>Infinity\<close>; two records with such costs
  compare as equal and keep their order in both directions.
\<close>

lemma parseFloat_rounds:
  "parseFloat ''9007199254740993'' = Fin 9007199254740992"
  "parseFloat ''9007199254740992'' = Fin 9007199254740992"
  by (simp_all add: parse_defs toDouble_tie toDouble_even)

lemma parseFloat_overflows: "parseFloat ''1e400'' = PosInf"
proof -
  have "(2::rat) powi 1024 \<le> 10 ^ 400"
    by simp
  then have "toDouble (10 ^ 400) = PosInf"
    by (rule toDouble_overflow)
  then show ?thesis
    by (simp add: parse_defs)
qed

lemma sortedHits_rounded_tie:
  "sortedHits costAscending
       [costHit ''a'' ''9007199254740993'', costHit ''b'' ''9007199254740992'']
     = [costHit ''a'' ''9007199254740993'', costHit ''b'' ''9007199254740992'']
   \<and> sortedHits costDescending
       [costHit ''a'' ''9007199254740993'', costHit ''b'' ''9007199254740992'']
     = [costHit ''a'' ''9007199254740993'', costHit ''b'' ''9007199254740992'']"
  by (simp add: sortedHits_def costAscending_simps costDescending_simps arraySort_def
      compareHits_def js_sub_def costHit_def noHit_def orString_def parseFloat_rounds)

text \<open>
  C6. Costs compare as the doubles they parse to. When every cost parses to a finite
  double: the descending order is the reverse of the ascending order of the reversed
  batch, so it is exactly the reverse of the ascending order when the parsed costs are
  pairwise different; both orders are sorted by cost; and in both orders the records of
  one parsed cost keep their order in the batch, so with equal costs the descending order
  is not the reverse of the ascending one.
\<close>

theorem cost_sort_toggle:
  assumes "list_all (\<lambda>h. isFin (costOf h)) hits"
  shows "sortedHits costDescending hits = rev (sortedHits costAscending (rev hits))
    \<and> (distinct (map costValue hits) \<longrightarrow>
          sortedHits costDescending hits = rev (sortedHits costAscending hits))
    \<and> sorted (map costValue (sortedHits costAscending hits))
    \<and> sorted (rev (map costValue (sortedHits costDescending hits)))
    \<and> (\<forall>c. filter (\<lambda>h. costValue h = c) (sortedHits costAscending hits)
              = filter (\<lambda>h. costValue h = c) hits)
    \<and> (\<forall>c. filter (\<lambda>h. costValue h = c) (sortedHits costDescending hits)
              = filter (\<lambda>h. costValue h = c) hits)"
proof -
  have r: "list_all (\<lambda>h. isFin (costOf h)) (rev hits)"
    using assms by (simp add: list_all_iff)
  note a = sortedHits_costAscending [OF assms] sortedHits_costAscending [OF r]
  note d = sortedHits_costDescending [OF assms]
  have 1: "sortedHits costDescending hits = rev (sortedHits costAscending (rev hits))"
    by (simp add: a d)
  have 2: "sortedHits costDescending hits = rev (sortedHits costAscending hits)"
    if "distinct (map costValue hits)"
    using sort_key_rev_distinct [OF that] by (simp add: a d)
  have 3: "sorted (map costValue (sortedHits costAscending hits))"
    by (simp add: a)
  have 4: "sorted (rev (map costValue (sortedHits costDescending hits)))"
    by (simp add: d rev_map)
  have 5: "filter (\<lambda>h. costValue h = c) (sortedHits costAscending hits)
           = filter (\<lambda>h. costValue h = c) hits" for c
    using sort_key_stable [of costValue c hits] by (simp add: a)
  have 6: "filter (\<lambda>h. costValue h = c) (sortedHits costDescending hits)
           = filter (\<lambda>h. costValue h = c) hits" for c
    using sort_key_stable [of costValue c "rev hits"] by (simp add: d rev_filter [symmetric])
  show ?thesis
    using 1 2 3 4 5 6 by blast
qed

theorem cost_sort_toggle_witness:
  "list_all (\<lambda>h. isFin (costOf h)) [costHit ''a'' ''5'', costHit ''b'' ''5'', costHit ''c'' ''3'']
   \<and> sortedHits costDescending [costHit ''a'' ''5'', costHit ''b'' ''5'', costHit ''c'' ''3'']
       = rev (sortedHits costAscending (rev [costHit ''a'' ''5'', costHit ''b'' ''5'', costHit ''c'' ''3'']))
   \<and> distinct (map costValue [costHit ''a'' ''5'', costHit ''c'' ''3''])
   \<and> sortedHits costDescending [costHit ''a'' ''5'', costHit ''c'' ''3'']
       = rev (sortedHits costAscending [costHit ''a'' ''5'', costHit ''c'' ''3''])"
proof -
  have h1: "list_all (\<lambda>h. isFin (costOf h)) [costHit ''a'' ''5'', costHit ''b'' ''5'', costHit ''c'' ''3'']"
    by (simp add: costOf_def costHit_def noHit_def orString_def parse_defs)
  have h2: "list_all (\<lambda>h. isFin (costOf h)) [costHit ''a'' ''5'', costHit ''c'' ''3'']"
    by (simp add: costOf_def costHit_def noHit_def orString_def parse_defs)
  have d: "distinct (map costValue [costHit ''a'' ''5'', costHit ''c'' ''3''])"
    by (simp add: costValue_def costOf_def costHit_def noHit_def orString_def parse_defs)
  show ?thesis
    using cost_sort_toggle [OF h1] cost_sort_toggle [OF h2] h1 d by blast
qed

text \<open>
  With two records of cost 5 before one of cost 3, ascending order moves the cheaper
  record to the front, descending order is the batch itself, and the reverse of the
  ascending order would swap the two records of cost 5.
\<close>

theorem cost_sort_toggle_counterexample:
  "sortedHits costAscending [costHit ''a'' ''5'', costHit ''b'' ''5'', costHit ''c'' ''3'']
     = [costHit ''c'' ''3'', costHit ''a'' ''5'', costHit ''b'' ''5'']
   \<and> sortedHits costDescending [costHit ''a'' ''5'', costHit ''b'' ''5'', costHit ''c'' ''3'']
     = [costHit ''a'' ''5'', costHit ''b'' ''5'', costHit ''c'' ''3'']
   \<and> sortedHits costDescending [costHit ''a'' ''5'', costHit ''b'' ''5'', costHit ''c'' ''3'']
     \<noteq> rev (sortedHits costAscending [costHit ''a'' ''5'', costHit ''b'' ''5'', costHit ''c'' ''3''])"
  by (simp add: sortedHits_def costAscending_simps costDescending_simps arraySort_def
      compareHits_def js_sub_def costHit_def noHit_def orString_def parse_defs)

section \<open>The sort comparator\<close>

lemma compareHits_text_asc:
  "field \<noteq> ContractCost_col \<Longrightarrow>
   js_positive (compareHits field asc a b) = (textKey field b < textKey field a)"
  by (auto simp: compareHits_def textKey_def Let_def)

lemma compareHits_text_desc:
  "field \<noteq> ContractCost_col \<Longrightarrow>
   js_positive (compareHits field desc a b) = (textKey field a < textKey field b)"
  by (auto simp: compareHits_def textKey_def Let_def)

lemma sortedHits_text:
  assumes "sortField s \<noteq> ContractCost_col"
  shows "sortedHits s hits =
    (if sortDirection s = asc then sort_key (textKey (sortField s)) hits
     else rev (sort_key (textKey (sortField s)) (rev hits)))"
proof (cases "sortDirection s")
  case asc
  then show ?thesis
    unfolding sortedHits_def
    using arraySort_ascending [of hits "compareHits (sortField s) asc" "textKey (sortField s)"]
      compareHits_text_asc [OF assms] by simp
next
  case desc
  then show ?thesis
    unfolding sortedHits_def
    using arraySort_descending [of hits "compareHits (sortField s) desc" "textKey (sortField s)"]
      compareHits_text_desc [OF assms] by simp
qed

text \<open>
  C7. A cost that does not parse is not treated as zero: \<open>parseFloat('abc')\<close> is
  \<open>NaN\<close>, and the comparator returns \<open>NaN\<close> for every pair with that record, in
  both argument orders, where a record of cost 0 compares below a record of cost 5. Only
  the missing and the empty cost are read as 0. With the record of cost \<open>abc\<close>
  between the costs 5 and 3 the comparator is inconsistent, and the sort modelled above,
  like any sort that reads \<open>NaN\<close> as equal, leaves the batch as it is.
\<close>

theorem compareHits_unparsable_cost:
  "compareHits ContractCost_col asc (costHit ''b'' ''abc'') (costHit ''a'' ''5'') = NaN
   \<and> compareHits ContractCost_col asc (costHit ''a'' ''5'') (costHit ''b'' ''abc'') = NaN
   \<and> compareHits ContractCost_col asc (costHit ''z'' ''0'') (costHit ''a'' ''5'') = Fin (- 5)
   \<and> compareHits ContractCost_col asc (costHit ''e'' '''') (costHit ''a'' ''5'') = Fin (- 5)
   \<and> sortedHits costAscending [costHit ''a'' ''5'', costHit ''b'' ''abc'', costHit ''c'' ''3'']
       = [costHit ''a'' ''5'', costHit ''b'' ''abc'', costHit ''c'' ''3'']"
  by (simp add: sortedHits_def costAscending_simps arraySort_def
      compareHits_def js_sub_def costHit_def noHit_def orString_def parse_defs)

section \<open>Pagination\<close>

lemma length_sortedHits: "length (sortedHits s hits) = length hits"
  by (simp add: sortedHits_def length_arraySort)

lemma totalPages_div: "totalPages rows = - (- int (length rows) div 20)"
proof -
  have "totalPages rows = \<lceil>rat_of_int (int (length rows)) / rat_of_int 20\<rceil>"
    by (simp add: totalPages_def hitsPerPage_def)
  also have "\<dots> = - (- int (length rows) div 20)"
    by (rule ceiling_divide_eq_div)
  finally show ?thesis .
qed

lemma totalPages_sortedHits: "totalPages (sortedHits s hits) = totalPages hits"
  by (simp add: totalPages_div length_sortedHits)

lemma totalPages_45: "length rows = 45 \<Longrightarrow> totalPages rows = 3"
  by (simp add: totalPages_div)

lemma take_min_length: "take (min n (length ys)) ys = take n ys"
  by (cases "n \<le> length ys") (simp_all add: min_def)

lemma slice_page:
  assumes "0 \<le> p"
  shows "slice xs (p * 20) (min (p * 20 + 20) (int (length xs))) = take 20 (drop (20 * nat p) xs)"
proof -
  define len where "len = int (length xs)"
  define e where "e = min (p * 20 + 20) len"
  have e0: "0 \<le> e" "min e len = e"
    using assms by (simp_all add: e_def len_def)
  have s: "slice xs (p * 20) e = take (nat (e - min (p * 20) len)) (drop (nat (min (p * 20) len)) xs)"
    using assms e0 by (simp add: slice_def Let_def len_def [symmetric])
  show ?thesis
  proof (cases "p * 20 \<le> len")
    case True
    have n: "nat (p * 20) = 20 * nat p"
      using assms by (simp add: nat_mult_distrib)
    have "nat (e - p * 20) = min 20 (length xs - 20 * nat p)"
      using True assms unfolding e_def len_def by linarith
    then have "slice xs (p * 20) e = take (min 20 (length (drop (20 * nat p) xs))) (drop (20 * nat p) xs)"
      using s True n by (simp add: min_absorb1)
    then show ?thesis
      unfolding e_def len_def by (simp only: take_min_length)
  next
    case False
    then have "length xs \<le> 20 * nat p"
      using assms unfolding len_def by linarith
    moreover have "slice xs (p * 20) e = []"
      using s False by (simp add: min_def len_def e_def)
    ultimately show ?thesis
      unfolding e_def len_def by simp
  qed
qed


lemma paginatedHits_page:
  assumes "0 \<le> currentPage s"
  shows "paginatedHits s hits = take 20 (drop (20 * nat (currentPage s)) (sortedHits s hits))"
  using slice_page [OF assms, of "sortedHits s hits"]
  by (simp add: paginatedHits_def Let_def startIndex_def endIndex_def hitsPerPage_def)

lemma pageOk_handleSort: "pageOk hits s \<Longrightarrow> pageOk hits (handleSort s field)"
  by (simp add: pageOk_def handleSort_def)

lemma pageOk_click: "pageOk hits s \<Longrightarrow> pageOk hits (click hits s c)"
  by (cases c)
    (auto simp: pageOk_def click_def Let_def totalPages_sortedHits handlePageChange_def
      pageToShow_def split: if_splits)

lemma pageOk_tableAfter: "pageOk hits (tableAfter hits as)"
proof (induction as rule: rev_induct)
  case Nil
  have "0 \<le> totalPages hits"
    by (simp add: totalPages_div)
  then show ?case
    by (simp add: tableAfter_def pageOk_def initialTable_def)
next
  case (snoc a as)
  then show ?case
    by (cases a) (simp_all add: tableAfter_def pageOk_handleSort pageOk_click)
qed

lemma slice_unclamped:
  assumes "0 \<le> p"
  shows "slice xs (p * 20) (p * 20 + 20) = slice xs (p * 20) (min (p * 20 + 20) (int (length xs)))"
proof -
  have "\<not> min (p * 20 + 20) (int (length xs)) < 0"
    using assms by (simp add: min_less_iff_disj)
  then show ?thesis
    using assms by (simp add: slice_def Let_def del: min_less_iff_conj)
qed

text \<open>
  C8. Over one batch of hits, after any sequence of clicks on the sort headers and the
  pagination controls from the initial state, the page index \<open>p\<close> is at least 0 and at
  most the last page, and the displayed page is the slice \<open>[p*20, p*20+20)\<close> of the
  sorted batch. With 45 records there are 3 pages, no index above 2 is reached, page 0
  shows the first 20 sorted records and page 2 the 5 records from the 41st on.
\<close>

theorem pagination_pages:
  assumes "s = tableAfter hits as"
  shows "0 \<le> currentPage s \<and> currentPage s \<le> max 0 (totalPages (sortedHits s hits) - 1)
    \<and> paginatedHits s hits
        = slice (sortedHits s hits) (currentPage s * 20) (currentPage s * 20 + 20)
    \<and> paginatedHits s hits = take 20 (drop (20 * nat (currentPage s)) (sortedHits s hits))
    \<and> (length hits = 45 \<longrightarrow>
          totalPages (sortedHits s hits) = 3 \<and> currentPage s \<le> 2
          \<and> (currentPage s = 0 \<longrightarrow> paginatedHits s hits = take 20 (sortedHits s hits))
          \<and> (currentPage s = 2 \<longrightarrow>
                paginatedHits s hits = drop 40 (sortedHits s hits)
                \<and> length (paginatedHits s hits) = 5))"
proof -
  have ok: "pageOk hits s"
    using assms pageOk_tableAfter by simp
  then have p0: "0 \<le> currentPage s"
    by (simp add: pageOk_def)
  have 1: "currentPage s \<le> max 0 (totalPages (sortedHits s hits) - 1)"
    using ok by (simp add: pageOk_def totalPages_sortedHits)
  have 2: "paginatedHits s hits = take 20 (drop (20 * nat (currentPage s)) (sortedHits s hits))"
    by (rule paginatedHits_page [OF p0])
  have 3: "paginatedHits s hits
           = slice (sortedHits s hits) (currentPage s * 20) (currentPage s * 20 + 20)"
    using slice_unclamped [OF p0, of "sortedHits s hits"] slice_page [OF p0, of "sortedHits s hits"] 2
    by simp
  have 4: "totalPages (sortedHits s hits) = 3 \<and> currentPage s \<le> 2
      \<and> (currentPage s = 0 \<longrightarrow> paginatedHits s hits = take 20 (sortedHits s hits))
      \<and> (currentPage s = 2 \<longrightarrow>
            paginatedHits s hits = drop 40 (sortedHits s hits)
            \<and> length (paginatedHits s hits) = 5)"
    if l: "length hits = 45"
  proof -
    have t: "totalPages (sortedHits s hits) = 3"
      using l by (simp add: totalPages_45 length_sortedHits)
    have "length (drop 40 (sortedHits s hits)) = 5"
      using l by (simp add: length_sortedHits)
    then show ?thesis
      using t 1 2 by auto
  qed
  show ?thesis
    using p0 1 2 3 4 by blast
qed

theorem pagination_pages_witness:
  "currentPage (tableAfter fortyFive
      [Control NextButton, Control NextButton, Control NextButton, Control (PageButton 1),
       SortHeader ContractCost_col, Control NextButton]) = 2
   \<and> length fortyFive = 45
   \<and> length (paginatedHits (tableAfter fortyFive
      [Control NextButton, Control NextButton, Control NextButton, Control (PageButton 1),
       SortHeader ContractCost_col, Control NextButton]) fortyFive) = 5
   \<and> currentPage (tableAfter fortyFive []) = 0
   \<and> paginatedHits (tableAfter fortyFive []) fortyFive
       = take 20 (sortedHits (tableAfter fortyFive []) fortyFive)"
proof -
  have l: "length fortyFive = 45"
    by (simp add: fortyFive_def)
  have t: "totalPages fortyFive = 3"
    using l by (rule totalPages_45)
  have a: "currentPage (tableAfter fortyFive
      [Control NextButton, Control NextButton, Control NextButton, Control (PageButton 1),
       SortHeader ContractCost_col, Control NextButton]) = 2"
    by (simp add: tableAfter_def click_def totalPages_sortedHits t handlePageChange_def
        handleSort_def pageToShow_def initialTable_def Let_def)
  have b: "currentPage (tableAfter fortyFive []) = 0"
    by (simp add: tableAfter_def initialTable_def)
  note w = pagination_pages [OF refl, of fortyFive
      "[Control NextButton, Control NextButton, Control NextButton, Control (PageButton 1),
        SortHeader ContractCost_col, Control NextButton]"]
  note w0 = pagination_pages [OF refl, of fortyFive "[]"]
  from w l a have c: "length (paginatedHits (tableAfter fortyFive
      [Control NextButton, Control NextButton, Control NextButton, Control (PageButton 1),
       SortHeader ContractCost_col, Control NextButton]) fortyFive) = 5"
    by blast
  from w0 l b have d: "paginatedHits (tableAfter fortyFive []) fortyFive
       = take 20 (sortedHits (tableAfter fortyFive []) fortyFive)"
    by blast
  show ?thesis
    using l a b c d by blast
qed

section \<open>Snapshot or live data\<close>

text \<open>
  C10. The statistics and the four charts look at nothing but the total hit count of
  their query to choose their source. When the total is 0 (or the result is missing) or
  exactly 9,855, each of them shows the snapshot, whatever the hits are and although the
  components are only rendered while a filter or a search term is applied; for any other
  total the statistics report that total.
\<close>

theorem snapshot_by_total:
  assumes "totalHitsOf nbHits = 0 \<or> totalHitsOf nbHits = 9855"
  shows "DashboardStatistics hits nbHits = defaultStats
    \<and> (filtersApplied s \<longrightarrow> statisticsPanel s hits nbHits = defaultStats)
    \<and> YearlyChart localeCompare infraYearData hits nbHits
        = yearlyChartData localeCompare infraYearData
    \<and> RegionChart regionData hits nbHits = regionChartData regionData
    \<and> TypeOfWorkChart typeOfWorkData hits nbHits = typeWorkPieData typeOfWorkData
    \<and> ContractorChart contractorData hits nbHits = contractorChartData contractorData
    \<and> (isFiltered other \<longrightarrow> totalProjects (DashboardStatistics hits other) = totalHitsOf other)"
proof -
  have n: "\<not> isFiltered nbHits"
    using assms by (auto simp: isFiltered_def)
  have d: "DashboardStatistics hits nbHits = defaultStats"
    using assms by (auto simp: DashboardStatistics_def Let_def defaultStats_def)
  have o: "totalProjects (DashboardStatistics hits other) = totalHitsOf other" if "isFiltered other"
    using that by (simp add: DashboardStatistics_def Let_def defaultStats_def isFiltered_def)
  show ?thesis
    using n d o
    by (simp add: statisticsPanel_def YearlyChart_def RegionChart_def TypeOfWorkChart_def
        ContractorChart_def yearlyChartData_def regionChartData_def typeWorkPieData_def
        contractorChartData_def)
qed

theorem snapshot_by_total_witness:
  "filtersApplied regionFiltered
   \<and> statisticsPanel regionFiltered [] (Some 0)
       = \<lparr>totalProjects = 9855, totalCost = Fin 547603497105, uniqueContractors = 2409\<rparr>
   \<and> RegionChart regionLookup contractorSample (Some 9855)
       = [(''Region III'', Count 9), (''Region I'', Count 5)]
   \<and> isFiltered (Some 5)
   \<and> totalProjects (DashboardStatistics contractorSample (Some 5)) = 5"
proof -
  have f: "filtersApplied regionFiltered"
    by (simp add: regionFiltered_def dashboardAfter_def handleFilterChange_index_def Let_def
        checkIfFiltersApplied_def initialDashboard_def initialFilters_def facetOrder_def
        truthy_def trim_def isWhiteSpace_def)
  have z: "totalHitsOf (Some 0) = 0 \<or> totalHitsOf (Some 0) = 9855"
    by (simp add: totalHitsOf_def)
  have m: "totalHitsOf (Some 9855) = 0 \<or> totalHitsOf (Some 9855) = 9855"
    by (simp add: totalHitsOf_def)
  have i: "isFiltered (Some 5)"
    by (simp add: isFiltered_def totalHitsOf_def)
  have r: "regionChartData regionLookup = [(''Region III'', Count 9), (''Region I'', Count 5)]"
    by (simp add: regionChartData_def regionLookup_def arraySort_def byItemCountDescending_def
        js_sub_def slice_def)
  from snapshot_by_total [OF z, of "[]" regionFiltered] f
  have a: "statisticsPanel regionFiltered [] (Some 0)
       = \<lparr>totalProjects = 9855, totalCost = Fin 547603497105, uniqueContractors = 2409\<rparr>"
    by (simp add: defaultStats_def)
  from snapshot_by_total [OF m, of contractorSample _ _ _ regionLookup] r
  have b: "RegionChart regionLookup contractorSample (Some 9855)
       = [(''Region III'', Count 9), (''Region I'', Count 5)]"
    by simp
  from snapshot_by_total [OF z, of contractorSample _ _ _ _ _ _ "Some 5"] i
  have c: "totalProjects (DashboardStatistics contractorSample (Some 5)) = 5"
    by (simp add: totalHitsOf_def)
  show ?thesis
    using f a b i c by blast
qed

section \<open>Top-ten aggregation\<close>

lemma map_of_assign: "map_of (assign freq key v) = (map_of freq)(key \<mapsto> v)"
  by (induction freq key v rule: assign.induct) (auto simp: fun_eq_iff)

lemma keys_assign: "fst ` set (assign freq key v) = insert key (fst ` set freq)"
  by (induction freq key v rule: assign.induct) auto

lemma distinct_assign: "distinct (map fst freq) \<Longrightarrow> distinct (map fst (assign freq key v))"
  by (induction freq key v rule: assign.induct) (auto simp: keys_assign)

lemma set_assign: "set (assign freq key v) \<subseteq> insert (key, v) (set freq)"
  by (induction freq key v rule: assign.induct) auto

lemma countUp_plain:
  assumes "plainKey (Some key)" and "allCounts freq"
  shows "countUp freq key = assign freq key (Count (lookupCount freq key + 1))"
proof (cases "map_of freq key")
  case None
  then show ?thesis
    using assms(1) by (simp add: countUp_def lookupCount_def plainKey_def)
next
  case (Some c)
  then have "(key, c) \<in> set freq"
    by (rule map_of_SomeD)
  then have "c \<noteq> Text"
    using assms(2) by (auto simp: allCounts_def list_all_iff)
  then obtain n where "c = Count n"
    by (cases c) simp_all
  then show ?thesis
    using Some by (simp add: countUp_def lookupCount_def)
qed

lemma lookupCount_countUp:
  assumes "plainKey (Some key)" and "allCounts freq"
  shows "lookupCount (countUp freq key) v = lookupCount freq v + (if v = key then 1 else 0)"
  by (simp add: countUp_plain [OF assms] map_of_assign lookupCount_def)

lemma keys_countUp:
  assumes "plainKey (Some key)" and "allCounts freq"
  shows "fst ` set (countUp freq key) = insert key (fst ` set freq)"
  by (simp add: countUp_plain [OF assms] keys_assign)

lemma distinct_countUp:
  assumes "plainKey (Some key)" and "allCounts freq" and "distinct (map fst freq)"
  shows "distinct (map fst (countUp freq key))"
  using assms(3) by (simp add: countUp_plain [OF assms(1,2)] distinct_assign)

lemma allCounts_countUp:
  assumes "plainKey (Some key)" and "allCounts freq"
  shows "allCounts (countUp freq key)"
  using assms(2) set_assign [of freq key "Count (lookupCount freq key + 1)"]
  unfolding countUp_plain [OF assms] allCounts_def list_all_iff by auto

lemma foldl_tallyStep:
  assumes "distinct (map fst acc)" and "allCounts acc" and "list_all plainKey (map field hits)"
  shows "distinct (map fst (foldl (tallyStep guard field) acc hits))
    \<and> allCounts (foldl (tallyStep guard field) acc hits)
    \<and> fst ` set (foldl (tallyStep guard field) acc hits)
        = fst ` set acc \<union> {v. guard (Some v) \<and> Some v \<in> field ` set hits}
    \<and> (\<forall>v. lookupCount (foldl (tallyStep guard field) acc hits) v
          = lookupCount acc v + (if guard (Some v) then valueCount field hits v else 0))"
  using assms
proof (induction hits arbitrary: acc)
  case Nil
  then show ?case by (simp add: valueCount_def)
next
  case (Cons h hits)
  have p: "plainKey (field h)" and ps: "list_all plainKey (map field hits)"
    using Cons.prems(3) by simp_all
  have s: "tallyStep guard field acc h = acc \<and> \<not> (\<exists>v. guard (Some v) \<and> field h = Some v)
         \<or> (\<exists>v. guard (Some v) \<and> field h = Some v \<and> plainKey (Some v)
                \<and> tallyStep guard field acc h = countUp acc v)"
    using p by (cases "field h") (auto simp: tallyStep_def)
  have d: "distinct (map fst (tallyStep guard field acc h))"
    using s Cons.prems(1,2) distinct_countUp by auto
  have a: "allCounts (tallyStep guard field acc h)"
    using s Cons.prems(2) allCounts_countUp by auto
  note ih = Cons.IH [OF d a ps]
  have k: "fst ` set (tallyStep guard field acc h)
           = fst ` set acc \<union> {v. guard (Some v) \<and> Some v = field h}"
    using s
  proof
    assume "tallyStep guard field acc h = acc \<and> \<not> (\<exists>v. guard (Some v) \<and> field h = Some v)"
    then show ?thesis by auto
  next
    assume "\<exists>v. guard (Some v) \<and> field h = Some v \<and> plainKey (Some v)
                \<and> tallyStep guard field acc h = countUp acc v"
    then obtain v where v: "guard (Some v)" "field h = Some v" "plainKey (Some v)"
        "tallyStep guard field acc h = countUp acc v"
      by blast
    show ?thesis
      using v(1,2) by (auto simp: v(4) keys_countUp [OF v(3) Cons.prems(2)])
  qed
  have c: "lookupCount (tallyStep guard field acc h) v
           = lookupCount acc v + (if guard (Some v) \<and> field h = Some v then 1 else 0)" for v
    using s
  proof
    assume "tallyStep guard field acc h = acc \<and> \<not> (\<exists>v. guard (Some v) \<and> field h = Some v)"
    then show ?thesis by auto
  next
    assume "\<exists>v. guard (Some v) \<and> field h = Some v \<and> plainKey (Some v)
                \<and> tallyStep guard field acc h = countUp acc v"
    then obtain w where w: "guard (Some w)" "field h = Some w" "plainKey (Some w)"
        "tallyStep guard field acc h = countUp acc w"
      by blast
    show ?thesis
      using w(1,2) by (auto simp: w(4) lookupCount_countUp [OF w(3) Cons.prems(2)])
  qed
  have v: "valueCount field (h # hits) v
           = (if field h = Some v then 1 else 0) + valueCount field hits v" for v
    by (simp add: valueCount_def)
  show ?case
    using ih k c v by auto
qed

lemma tally_props:
  assumes "list_all plainKey (map field hits)"
  shows "distinct (map fst (tally guard field hits))"
    and "allCounts (tally guard field hits)"
    and "fst ` set (tally guard field hits) = {v. guard (Some v) \<and> Some v \<in> field ` set hits}"
    and "lookupCount (tally guard field hits) v
         = (if guard (Some v) then valueCount field hits v else 0)"
  using foldl_tallyStep [of "[]" field hits guard] assms
  by (simp_all add: tally_def allCounts_def lookupCount_def)

lemma tally_entry:
  assumes "list_all plainKey (map field hits)" and "(v, c) \<in> set (tally guard field hits)"
  shows "guard (Some v) \<and> c = Count (valueCount field hits v) \<and> 0 < valueCount field hits v"
proof -
  note p = tally_props [OF assms(1), of guard]
  have "c \<noteq> Text"
    using p(2) assms(2) by (auto simp: allCounts_def list_all_iff)
  then obtain n where n: "c = Count n"
    by (cases c) simp_all
  have "map_of (tally guard field hits) v = Some c"
    using assms(2) p(1) by simp
  then have l: "lookupCount (tally guard field hits) v = n"
    by (simp add: lookupCount_def n)
  have "v \<in> fst ` set (tally guard field hits)"
    using assms(2) by force
  then have g: "guard (Some v)" "Some v \<in> field ` set hits"
    by (simp_all add: p(3))
  have c: "n = valueCount field hits v"
    using l g p(4) [of v] by simp
  obtain h where "h \<in> set hits" "field h = Some v"
    using g(2) by force
  then have "0 < valueCount field hits v"
    by (auto simp: valueCount_def filter_empty_conv)
  then show ?thesis
    using g c n by simp
qed

lemma keys_tally_nonBlank:
  assumes "list_all plainKey (map field hits)"
  shows "set (map fst (tally nonBlank field hits)) = set (countedValues field hits)"
proof -
  have "{v. nonBlank (Some v) \<and> Some v \<in> field ` set hits} = the ` {x \<in> field ` set hits. nonBlank x}"
  proof (intro set_eqI iffI)
    fix v assume "v \<in> {v. nonBlank (Some v) \<and> Some v \<in> field ` set hits}"
    then have "Some v \<in> {x \<in> field ` set hits. nonBlank x}" by simp
    then have "the (Some v) \<in> the ` {x \<in> field ` set hits. nonBlank x}" by (rule imageI)
    then show "v \<in> the ` {x \<in> field ` set hits. nonBlank x}" by simp
  next
    fix v assume "v \<in> the ` {x \<in> field ` set hits. nonBlank x}"
    then obtain x where x: "x \<in> field ` set hits" "nonBlank x" "v = the x" by auto
    then have "x = Some v" by (cases x) (simp_all add: nonBlank_def)
    then show "v \<in> {v. nonBlank (Some v) \<and> Some v \<in> field ` set hits}" using x by simp
  qed
  then show ?thesis
    by (simp add: tally_props(3) [OF assms] countedValues_def)
qed

lemma length_tally_nonBlank:
  assumes "list_all plainKey (map field hits)"
  shows "length (tally nonBlank field hits) = length (countedValues field hits)"
proof -
  have "card (set (map fst (tally nonBlank field hits))) = length (map fst (tally nonBlank field hits))"
    by (rule distinct_card) (rule tally_props(1) [OF assms])
  moreover have "card (set (countedValues field hits)) = length (countedValues field hits)"
    by (rule distinct_card) (simp add: countedValues_def)
  ultimately show ?thesis
    by (simp only: keys_tally_nonBlank [OF assms] length_map)
qed

lemma mset_entries: "mset (entries obj) = mset obj"
proof -
  have "mset (filter (\<lambda>(k, c). isArrayIndex k) obj) + mset (filter (\<lambda>(k, c). \<not> isArrayIndex k) obj)
        = mset obj"
    by (induction obj) auto
  then show ?thesis
    by (simp add: entries_def)
qed

lemma slice_0_10: "slice xs 0 10 = take 10 xs"
  by (simp add: slice_def Let_def min_def)

lemma onGrid_of_nat: "onGrid (of_nat n)"
  using onGrid_of_int [of "int n"] by simp

lemma byCountDescending_positive:
  assumes "snd a \<noteq> Text" and "snd b \<noteq> Text"
  shows "js_positive (byCountDescending a b) = (countOf (snd a) < countOf (snd b))"
proof -
  obtain n m where "snd a = Count n" "snd b = Count m"
    using assms by (cases "snd a"; cases "snd b") simp_all
  then show ?thesis
    using js_positive_sub [of "Fin (of_nat m)" "Fin (of_nat n)"]
    by (simp add: byCountDescending_def onGrid_of_nat)
qed

lemma byItemCountDescending_positive:
  "js_positive (byItemCountDescending a b) = (itemCount a < itemCount b)"
  using js_positive_sub [of "Fin (of_nat (itemCount b))" "Fin (of_nat (itemCount a))"]
  by (simp add: byItemCountDescending_def onGrid_of_nat)

lemma sorted_wrt_strict:
  fixes key :: "'a \<Rightarrow> 'k::linorder"
  assumes "sorted_wrt (\<lambda>a b. key b \<le> key a) xs" and "distinct (map key xs)"
  shows "sorted_wrt (\<lambda>a b. key b < key a) xs"
  using assms by (induction xs) (auto simp: less_le image_iff)

lemma arraySort_map:
  assumes "\<And>a b. cmp' (f a) (f b) = cmp a b"
  shows "arraySort cmp' (map f xs) = map f (arraySort cmp xs)"
proof -
  have i: "insertSorted cmp' (f x) (map f ys) = map f (insertSorted cmp x ys)" for x ys
    by (induction ys) (simp_all add: assms)
  show ?thesis
    by (induction xs) (simp_all add: arraySort_Cons i, simp add: arraySort_def)
qed

lemma topTen_sorted:
  assumes "list_all plainKey (map field hits)"
  shows "topTen field hits = take 10 (arraySort byCountDescending (entries (tally nonBlank field hits)))
   \<and> mset (arraySort byCountDescending (entries (tally nonBlank field hits)))
       = mset (tally nonBlank field hits)
   \<and> sorted_wrt (\<lambda>a b. countOf (snd b) \<le> countOf (snd a))
       (arraySort byCountDescending (entries (tally nonBlank field hits)))"
proof -
  let ?t = "tally nonBlank field hits"
  have s: "set (entries ?t) = set ?t"
    using mset_entries [of ?t] by (metis set_mset_mset)
  have c: "snd x \<noteq> Text" if "x \<in> set (entries ?t)" for x
    using that s tally_props(2) [OF assms, of nonBlank]
    by (auto simp: allCounts_def list_all_iff)
  have "js_positive (byCountDescending x y) = (countOf (snd x) < countOf (snd y))"
    if "x \<in> set (entries ?t)" "y \<in> set (entries ?t)" for x y
    using that c by (simp add: byCountDescending_positive)
  then have "sorted_wrt (\<lambda>a b. countOf (snd b) \<le> countOf (snd a))
       (arraySort byCountDescending (entries ?t))"
    using arraySort_descending_props [of "entries ?t" byCountDescending "\<lambda>x. countOf (snd x)"]
    by blast
  then show ?thesis
    by (simp add: topTen_def slice_0_10 mset_arraySort mset_entries)
qed

lemma distinct_counts:
  assumes "list_all plainKey (map field hits)"
    and "distinct (map (valueCount field hits) (countedValues field hits))"
  shows "distinct (map (\<lambda>x. countOf (snd x)) (tally nonBlank field hits))"
proof -
  have "countOf (snd x) = valueCount field hits (fst x)"
    if "x \<in> set (tally nonBlank field hits)" for x
    using tally_entry [OF assms(1), of "fst x" "snd x" nonBlank] that by simp
  then have e: "map (\<lambda>x. countOf (snd x)) (tally nonBlank field hits)
           = map (valueCount field hits) (map fst (tally nonBlank field hits))"
    by simp
  have "inj_on (valueCount field hits) (set (countedValues field hits))"
    using assms(2) by (simp add: distinct_map)
  then have "distinct (map (valueCount field hits) (map fst (tally nonBlank field hits)))"
    using tally_props(1) [OF assms(1), of nonBlank]
    by (simp only: distinct_map keys_tally_nonBlank [OF assms(1), symmetric])
  then show ?thesis
    by (simp only: e)
qed

lemma topTen_props:
  assumes "list_all plainKey (map field hits)"
    and "distinct (map (valueCount field hits) (countedValues field hits))"
  shows "length (topTen field hits) = min 10 (length (countedValues field hits))
    \<and> sorted_wrt (\<lambda>a b. countOf (snd b) < countOf (snd a)) (topTen field hits)
    \<and> list_all (\<lambda>(v, c). v \<in> set (countedValues field hits) \<and> c = Count (valueCount field hits v))
         (topTen field hits)"
proof -
  let ?t = "tally nonBlank field hits"
  let ?s = "arraySort byCountDescending (entries ?t)"
  note p = topTen_sorted [OF assms(1)]
  have m: "mset ?s = mset ?t" using p by simp
  have l: "length ?s = length (countedValues field hits)"
    using m length_tally_nonBlank [OF assms(1)] by (metis size_mset)
  have "mset (map (\<lambda>x. countOf (snd x)) ?s) = mset (map (\<lambda>x. countOf (snd x)) ?t)"
    using m by (metis mset_map)
  then have "distinct (map (\<lambda>x. countOf (snd x)) ?s)"
    using distinct_counts [OF assms] by (metis mset_eq_imp_distinct_iff)
  then have "sorted_wrt (\<lambda>a b. countOf (snd b) < countOf (snd a)) ?s"
    using p sorted_wrt_strict [of "\<lambda>x. countOf (snd x)" ?s] by simp
  then have s: "sorted_wrt (\<lambda>a b. countOf (snd b) < countOf (snd a)) (topTen field hits)"
    using p by simp
  have sub: "set (topTen field hits) \<subseteq> set ?t"
    using p m by (metis set_mset_mset set_take_subset)
  have "v \<in> set (countedValues field hits) \<and> c = Count (valueCount field hits v)"
    if "(v, c) \<in> set (topTen field hits)" for v c
  proof -
    have i: "(v, c) \<in> set ?t" using that sub by blast
    then have "v \<in> set (map fst ?t)" by force
    then have "v \<in> set (countedValues field hits)"
      by (simp only: keys_tally_nonBlank [OF assms(1)])
    then show ?thesis
      using tally_entry [OF assms(1) i] by simp
  qed
  then have e: "list_all (\<lambda>(v, c). v \<in> set (countedValues field hits) \<and> c = Count (valueCount field hits v))
         (topTen field hits)"
    unfolding list_all_iff by blast
  have "length (topTen field hits) = min 10 (length ?s)"
    using p by simp
  then have n: "length (topTen field hits) = min 10 (length (countedValues field hits))"
    by (simp only: l)
  show ?thesis
    using n s e by blast
qed

lemma fiftyFive_regions:
  "map Region fiftyFive = concat (map (\<lambda>(v, n). replicate n (Some v))
       [(''a'', 1), (''b'', 2), (''c'', 3), (''d'', 4), (''e'', 5),
        (''f'', 6), (''g'', 7), (''h'', 8), (''i'', 9), (''j'', 10)])"
  by (simp add: fiftyFive_def regionHit_def noHit_def)

lemma valueCount_map:
  "valueCount field hits v = length (filter (\<lambda>x. x = Some v) (map field hits))"
  by (simp add: valueCount_def filter_map comp_def)

lemma countedValues_fiftyFive:
  "countedValues Region fiftyFive = [''a'', ''b'', ''c'', ''d'', ''e'', ''f'', ''g'', ''h'', ''i'', ''j'']"
  by (simp add: countedValues_def fiftyFive_regions nonBlank_def truthy_def trim_def
      isWhiteSpace_def eval_nat_numeral)

lemma chartEntries_live:
  assumes "isFiltered nbHits"
  shows "chartEntries chart lookup hits nbHits = topTen (chartField chart) hits"
proof (cases chart)
  case RegionTopTen
  then show ?thesis
    using assms by (simp add: RegionChart_def topTen_def)
next
  case TypeOfWorkTopTen
  then show ?thesis
    using assms by (simp add: TypeOfWorkChart_def topTen_def)
next
  case ContractorTopTen
  have "arraySort (\<lambda>a b. js_sub (numberOf (fst (snd b))) (numberOf (fst (snd a))))
          (map (\<lambda>(fullName, c). (shortName fullName, c, fullName)) xs)
        = map (\<lambda>(fullName, c). (shortName fullName, c, fullName)) (arraySort byCountDescending xs)"
    for xs :: frequency
    by (rule arraySort_map) (simp add: byCountDescending_def split: prod.splits)
  then have "ContractorChart lookup hits nbHits
             = map (\<lambda>(v, c). (shortName v, c, v)) (topTen Contractor hits)"
    using assms by (simp add: ContractorChart_def topTen_def slice_0_10 take_map)
  then show ?thesis
    using ContractorTopTen by (simp add: comp_def case_prod_beta)
qed

text \<open>
  C9. A sample of 10 or more hits need not yield 10 entries: a chart has one entry for
  each distinct non-blank facet value, at most 10. When the query counts as filtered, no
  facet value is the name of a property that every object inherits, and the distinct
  non-blank values have pairwise different frequencies, the live series of the region,
  the type-of-work and the contractor chart has \<open>min 10 n\<close> entries for \<open>n\<close> distinct
  non-blank values, hence exactly 10 when there are at least 10; the counts are strictly
  descending; and each entry is a value of the sample with the number of hits that carry
  it.
\<close>

theorem top_ten_aggregation:
  assumes "isFiltered nbHits"
    and "list_all plainKey (map (chartField chart) hits)"
    and "distinct (map (valueCount (chartField chart) hits) (countedValues (chartField chart) hits))"
  shows "length (chartEntries chart lookup hits nbHits)
        = min 10 (length (countedValues (chartField chart) hits))
    \<and> (10 \<le> length (countedValues (chartField chart) hits) \<longrightarrow>
          length (chartEntries chart lookup hits nbHits) = 10)
    \<and> sorted_wrt (\<lambda>a b. countOf (snd b) < countOf (snd a)) (chartEntries chart lookup hits nbHits)
    \<and> list_all (\<lambda>(v, c). v \<in> set (countedValues (chartField chart) hits)
                  \<and> c = Count (valueCount (chartField chart) hits v))
         (chartEntries chart lookup hits nbHits)"
proof -
  note e = chartEntries_live [OF assms(1), of chart lookup hits]
  note p = topTen_props [OF assms(2,3)]
  have 4: "length (topTen (chartField chart) hits) = 10"
    if "10 \<le> length (countedValues (chartField chart) hits)"
    using p that by simp
  show ?thesis
    unfolding e using p 4 by blast
qed

theorem top_ten_aggregation_witness:
  "isFiltered (Some 55) \<and> length fiftyFive = 55
   \<and> list_all plainKey (map Region fiftyFive)
   \<and> distinct (map (valueCount Region fiftyFive) (countedValues Region fiftyFive))
   \<and> length (countedValues Region fiftyFive) = 10
   \<and> length (RegionChart regionLookup fiftyFive (Some 55)) = 10
   \<and> sorted_wrt (\<lambda>a b. countOf (snd b) < countOf (snd a))
        (RegionChart regionLookup fiftyFive (Some 55))"
proof -
  have f: "isFiltered (Some 55)"
    by (simp add: isFiltered_def totalHitsOf_def)
  have k: "list_all plainKey (map Region fiftyFive)"
    by (simp add: fiftyFive_regions plainKey_def inheritedFunctions_def eval_nat_numeral)
  have d: "distinct (map (valueCount Region fiftyFive) (countedValues Region fiftyFive))"
    by (simp add: countedValues_fiftyFive valueCount_map fiftyFive_regions eval_nat_numeral)
  have n: "length (countedValues Region fiftyFive) = 10"
    by (simp add: countedValues_fiftyFive)
  have l: "length fiftyFive = 55"
    using arg_cong [OF fiftyFive_regions, of length] by (simp add: eval_nat_numeral)
  have k': "list_all plainKey (map (chartField RegionTopTen) fiftyFive)"
    using k by simp
  have d': "distinct (map (valueCount (chartField RegionTopTen) fiftyFive)
                       (countedValues (chartField RegionTopTen) fiftyFive))"
    using d by simp
  note w = top_ten_aggregation [OF f k' d', of regionLookup]
  from w n have a: "length (RegionChart regionLookup fiftyFive (Some 55)) = 10"
    by simp
  from w have b: "sorted_wrt (\<lambda>a b. countOf (snd b) < countOf (snd a))
        (RegionChart regionLookup fiftyFive (Some 55))"
    by simp
  show ?thesis
    using f l k d n a b by blast
qed

text \<open>
  Ten hits of the one region \<open>A\<close>: the sample has size 10, its frequencies are
  pairwise different, and the chart has the single entry \<open>(A, 10)\<close>. Ten hits of
  which nine have the region \<open>a\<close> and one the region \<open>__proto__\<close>: two distinct
  non-blank values with the frequencies 9 and 1, and again a single entry.
\<close>

theorem top_ten_aggregation_counterexample:
  "length tenSame = 10 \<and> isFiltered (Some 10)
   \<and> distinct (map (valueCount Region tenSame) (countedValues Region tenSame))
   \<and> RegionChart regionLookup tenSame (Some 10) = [(''A'', Count 10)]
   \<and> length (RegionChart regionLookup tenSame (Some 10)) \<noteq> 10
   \<and> length protoSample = 10
   \<and> countedValues Region protoSample = [''__proto__'', ''a'']
   \<and> distinct (map (valueCount Region protoSample) (countedValues Region protoSample))
   \<and> RegionChart regionLookup protoSample (Some 10) = [(''a'', Count 9)]"
proof -
  have l: "length tenSame = 10"
    by (simp add: tenSame_def)
  have f: "isFiltered (Some 10)"
    by (simp add: isFiltered_def totalHitsOf_def)
  have r: "map Region tenSame = replicate 10 (Some ''A'')"
    by (simp add: tenSame_def regionHit_def noHit_def)
  have c: "countedValues Region tenSame = [''A'']"
    by (simp add: countedValues_def r nonBlank_def truthy_def trim_def isWhiteSpace_def
        eval_nat_numeral)
  have d: "distinct (map (valueCount Region tenSame) (countedValues Region tenSame))"
    by (simp add: c)
  have e: "RegionChart regionLookup tenSame (Some 10) = [(''A'', Count 10)]"
    by code_simp
  have n: "length (RegionChart regionLookup tenSame (Some 10)) \<noteq> 10"
    by (simp add: e)
  have l': "length protoSample = 10"
    by (simp add: protoSample_def)
  have r': "map Region protoSample = Some ''__proto__'' # replicate 9 (Some ''a'')"
    by (simp add: protoSample_def regionHit_def noHit_def)
  have c': "countedValues Region protoSample = [''__proto__'', ''a'']"
    by (simp add: countedValues_def r' nonBlank_def truthy_def trim_def isWhiteSpace_def
        eval_nat_numeral)
  have d': "distinct (map (valueCount Region protoSample) (countedValues Region protoSample))"
    by (simp add: c' valueCount_map r' eval_nat_numeral)
  have e': "RegionChart regionLookup protoSample (Some 10) = [(''a'', Count 9)]"
    by code_simp
  show ?thesis
    using l f d e n l' c' d' e' by blast
qed

section \<open>Export failures\<close>

lemma fetchAllPages_fails:
  "list_ex isl answers \<Longrightarrow> isl (fetchAllPages acc answers)"
  by (induction acc answers rule: fetchAllPages.induct) simp_all

lemma fetchAllPages_succeeds:
  "\<not> list_ex isl answers \<Longrightarrow> fetchAllPages acc answers = Inr (acc @ concat (map projr answers))"
  by (induction acc answers rule: fetchAllPages.induct) simp_all

lemma exportMeilisearchData_fails:
  "list_ex isl answers \<Longrightarrow> isl (exportMeilisearchData filename suffix answers)"
  using fetchAllPages_fails [of answers "[]"]
  by (cases "fetchAllPages [] answers") (simp_all add: exportMeilisearchData_def)

lemma exportMeilisearchData_succeeds:
  "\<not> list_ex isl answers \<Longrightarrow>
   exportMeilisearchData filename suffix answers
   = Inr \<lparr>fileName = filename @ suffix, fileRows = concat (map projr answers)\<rparr>"
  using fetchAllPages_succeeds [of answers "[]"]
  by (simp add: exportMeilisearchData_def)

text \<open>
  C3. Every export ends with the exporting flag reset, on success and on failure. When
  the retrieval of any page fails, no file is produced, whatever pages were retrieved
  before, and exactly one notice, the failure notice, is shown. When no retrieval fails,
  one file with the records of all pages in order is produced and the one notice is the
  success notice. This holds for the handler of the table page and for the handler of the
  dashboard page.
\<close>

theorem export_failure_cleanup:
  "\<not> isExporting (handleExportData facade suffix fs term st)
   \<and> \<not> isExporting (handleExportData_index bfs t facade suffix fs term st)
   \<and> (list_ex isl (facade (buildFilterString fs) term) \<longrightarrow>
         downloads (handleExportData facade suffix fs term st) = downloads st
         \<and> alerts (handleExportData facade suffix fs term st)
             = alerts st @ [''Failed to export data. Please try again.''])
   \<and> (list_ex isl (facade (bfs fs) term) \<longrightarrow>
         downloads (handleExportData_index bfs t facade suffix fs term st) = downloads st
         \<and> alerts (handleExportData_index bfs t facade suffix fs term st)
             = alerts st @ [t ''alerts.exportError''])
   \<and> (\<not> list_ex isl (facade (buildFilterString fs) term) \<longrightarrow>
         downloads (handleExportData facade suffix fs term st)
           = downloads st @ [\<lparr>fileName = ''flood-control-projects-table'' @ suffix,
                fileRows = concat (map projr (facade (buildFilterString fs) term))\<rparr>]
         \<and> alerts (handleExportData facade suffix fs term st)
             = alerts st @ [''Data exported successfully!''])"
proof -
  have 1: "\<not> isExporting (handleExportData facade suffix fs term st)"
    by (simp add: handleExportData_def Let_def)
  have 2: "\<not> isExporting (handleExportData_index bfs t facade suffix fs term st)"
    by (simp add: handleExportData_index_def Let_def)
  have 3: "downloads (handleExportData facade suffix fs term st) = downloads st
      \<and> alerts (handleExportData facade suffix fs term st)
          = alerts st @ [''Failed to export data. Please try again.'']"
    if "list_ex isl (facade (buildFilterString fs) term)"
    using exportMeilisearchData_fails [OF that, of "''flood-control-projects-table''" suffix]
    by (auto simp: handleExportData_def Let_def split: sum.splits)
  have 4: "downloads (handleExportData_index bfs t facade suffix fs term st) = downloads st
      \<and> alerts (handleExportData_index bfs t facade suffix fs term st)
          = alerts st @ [t ''alerts.exportError'']"
    if "list_ex isl (facade (bfs fs) term)"
    using exportMeilisearchData_fails [OF that, of "''flood-control-projects-visual''" suffix]
    by (auto simp: handleExportData_index_def Let_def split: sum.splits)
  have 5: "downloads (handleExportData facade suffix fs term st)
        = downloads st @ [\<lparr>fileName = ''flood-control-projects-table'' @ suffix,
             fileRows = concat (map projr (facade (buildFilterString fs) term))\<rparr>]
      \<and> alerts (handleExportData facade suffix fs term st)
          = alerts st @ [''Data exported successfully!'']"
    if "\<not> list_ex isl (facade (buildFilterString fs) term)"
    using exportMeilisearchData_succeeds [OF that, of "''flood-control-projects-table''" suffix]
    by (simp add: handleExportData_def Let_def)
  show ?thesis
    using 1 2 3 4 5 by blast
qed

theorem export_failure_cleanup_witness:
  "list_ex isl (failingFacade (buildFilterString initialFilters) [])
   \<and> \<not> isExporting (handleExportData failingFacade ''-1'' initialFilters [] idleExport)
   \<and> downloads (handleExportData failingFacade ''-1'' initialFilters [] idleExport) = []
   \<and> alerts (handleExportData failingFacade ''-1'' initialFilters [] idleExport)
       = [''Failed to export data. Please try again.'']
   \<and> downloads (handleExportData_index buildFilterString id failingFacade ''-1'' initialFilters []
         idleExport) = []
   \<and> alerts (handleExportData_index buildFilterString id failingFacade ''-1'' initialFilters []
         idleExport) = [''alerts.exportError'']
   \<and> downloads (handleExportData answeringFacade ''-1'' initialFilters [] idleExport)
       = [\<lparr>fileName = ''flood-control-projects-table-1'',
           fileRows = [costHit ''a'' ''5'', costHit ''c'' ''3'']\<rparr>]
   \<and> alerts (handleExportData answeringFacade ''-1'' initialFilters [] idleExport)
       = [''Data exported successfully!'']"
proof -
  have f: "list_ex isl (failingFacade (buildFilterString initialFilters) [])"
    by (simp add: failingFacade_def)
  have a: "\<not> list_ex isl (answeringFacade (buildFilterString initialFilters) [])"
    by (simp add: answeringFacade_def)
  note w1 = export_failure_cleanup
    [of failingFacade "''-1''" initialFilters "[]" idleExport buildFilterString id]
  note w2 = export_failure_cleanup
    [of answeringFacade "''-1''" initialFilters "[]" idleExport buildFilterString id]
  have c: "concat (map projr (answeringFacade (buildFilterString initialFilters) []))
           = [costHit ''a'' ''5'', costHit ''c'' ''3'']"
    by (simp add: answeringFacade_def)
  show ?thesis
    using w1 w2 f a c by (simp add: idleExport_def)
qed

end
